theory Spec2Isabelle
  imports Main
begin

section \<open>Values shared by the credential store and the forwarder\<close>

text \<open>
  A JavaScript string is modelled as a \<^typ>\<open>string\<close>: a list of code units, here the code
  units U+0000 to U+00FF. JSON numbers and epoch milliseconds are modelled as \<^typ>\<open>int\<close>
  (integral values in the range where a JavaScript number is exact). Error messages are
  not modelled: an error is its class, its \<open>code\<close> and its \<open>statusCode\<close>.
\<close>

datatype json =
    JNull
  | JBool bool
  | JNumber int
  | JString string
  | JArray "json list"
  | JObject "(string \<times> json) list"

text \<open>
  \<open>OAuthCredentialsError(message, code, statusCode?)\<close> of oauth.ts,
  \<open>HttpRequestError(message, statusCode, code)\<close> of server.ts, and the runtime's own
  \<open>TypeError\<close> (a property read on \<open>null\<close>, an invalid URL), which is an instance of
  neither class. \<open>NotModelled\<close> is not an error of the program: it marks an input on which
  the model of the URL class stops (a URL whose scheme is none of http, https, ws, wss,
  ftp), where the runtime goes on by rules that are not modelled here.
\<close>

datatype error =
    OAuthCredentialsError string "nat option"
  | HttpRequestError nat string
  | TypeError
  | NotModelled

record QwenCredentials =
  access_token :: "string option"
  refresh_token :: "string option"
  token_type :: "string option"
  expiry_date :: "int option"
  resource_url :: "string option"

record OAuthCredentialStoreOptions =
  credentialsFile :: string
  tokenRefreshBufferMs :: int

text \<open>
  What the program takes from its runtime and does not define itself: \<open>JSON.parse\<close>
  (\<open>None\<close> when it throws a SyntaxError), the host parser of the URL class (\<open>None\<close> when it
  rejects the host; otherwise the serialised host) and \<open>path.dirname\<close>.
\<close>

record runtime =
  JSON_parse :: "string \<Rightarrow> json option"
  host_parser :: "string \<Rightarrow> string option"
  path_dirname :: "string \<Rightarrow> string"

subsection \<open>Property reads and truthiness\<close>

text \<open>\<open>record.key\<close> on a parsed JSON value other than \<open>null\<close>: \<open>undefined\<close> is \<open>None\<close>. A
  repeated key of a JSON text keeps its last value.\<close>

fun property :: "json \<Rightarrow> string \<Rightarrow> json option" where
  "property (JObject kvs) k = map_of (rev kvs) k"
| "property _ k = None"

text \<open>The value \<open>v\<close> when \<open>typeof v === 'string'\<close>.\<close>

fun string_of :: "json option \<Rightarrow> string option" where
  "string_of (Some (JString s)) = Some s"
| "string_of _ = None"

text \<open>The value \<open>v\<close> when \<open>typeof v === 'number'\<close>.\<close>

fun number_of :: "json option \<Rightarrow> int option" where
  "number_of (Some (JNumber n)) = Some n"
| "number_of _ = None"

text \<open>\<open>!s\<close> for an optional string: \<open>undefined\<close> and the empty string are falsy.\<close>

fun falsy_string :: "string option \<Rightarrow> bool" where
  "falsy_string None = True"
| "falsy_string (Some s) = (s = [])"

text \<open>\<open>!n\<close> for an optional number: \<open>undefined\<close> and 0 are falsy.\<close>

fun falsy_number :: "int option \<Rightarrow> bool" where
  "falsy_number None = True"
| "falsy_number (Some n) = (n = 0)"

text \<open>\<open>!raw\<close> for a parsed JSON value.\<close>

fun falsy_json :: "json \<Rightarrow> bool" where
  "falsy_json JNull = True"
| "falsy_json (JBool b) = (\<not> b)"
| "falsy_json (JNumber n) = (n = 0)"
| "falsy_json (JString s) = (s = [])"
| "falsy_json _ = False"

text \<open>\<open>typeof raw === 'object'\<close>: objects, arrays and \<open>null\<close>.\<close>

fun typeof_object :: "json \<Rightarrow> bool" where
  "typeof_object JNull = True"
| "typeof_object (JArray xs) = True"
| "typeof_object (JObject kvs) = True"
| "typeof_object _ = False"

section \<open>oauth.ts: reading and parsing the credential file\<close>

definition parseCredentials :: "json \<Rightarrow> error + QwenCredentials" where
  "parseCredentials raw =
     (if falsy_json raw \<or> \<not> typeof_object raw
      then Inl (OAuthCredentialsError ''invalid_credentials_format'' None)
      else
        let credentials = \<lparr>
              access_token = string_of (property raw ''access_token''),
              refresh_token = string_of (property raw ''refresh_token''),
              token_type = string_of (property raw ''token_type''),
              expiry_date = number_of (property raw ''expiry_date''),
              resource_url = string_of (property raw ''resource_url'') \<rparr>
        in if falsy_string (access_token credentials) \<and> falsy_string (refresh_token credentials)
           then Inl (OAuthCredentialsError ''missing_credentials'' None)
           else Inr credentials)"

text \<open>What \<open>fs.readFile(path, 'utf8')\<close> finds at a path: nothing (ENOENT), a file that
  cannot be read, or text.\<close>

datatype file_entry = Unreadable | Content string

type_synonym files = "string \<Rightarrow> file_entry option"

definition readCredentials ::
  "runtime \<Rightarrow> OAuthCredentialStoreOptions \<Rightarrow> files \<Rightarrow> error + QwenCredentials" where
  "readCredentials rt options fs =
     (case fs (credentialsFile options) of
        None \<Rightarrow> Inl (OAuthCredentialsError ''credentials_not_found'' None)
      | Some Unreadable \<Rightarrow> Inl (OAuthCredentialsError ''credentials_read_failed'' None)
      | Some (Content fileContent) \<Rightarrow>
          (case JSON_parse rt fileContent of
             None \<Rightarrow> Inl (OAuthCredentialsError ''credentials_parse_failed'' None)
           | Some parsed \<Rightarrow> parseCredentials parsed))"

section \<open>oauth.ts: the refresh exchange\<close>

text \<open>The outcome of the \<open>fetch\<close> of the token endpoint: the promise rejects, or a response
  arrives with a status and a body text.\<close>

datatype token_fetch = FetchRejected | TokenResponse nat string

text \<open>\<open>response.ok\<close>.\<close>

definition response_ok :: "nat \<Rightarrow> bool" where
  "response_ok status = (200 \<le> status \<and> status \<le> 299)"

text \<open>
  The part of \<open>refreshCredentials\<close> before \<open>saveCredentials\<close>: it yields \<open>nextCredentials\<close> or
  the error thrown. \<open>now\<close> is the value of \<open>Date.now()\<close> when \<open>nextCredentials\<close> is built.
  \<open>tokenData.access_token\<close> on a body that parses to \<open>null\<close> throws a TypeError outside
  every \<open>try\<close> block.
\<close>

definition nextCredentials ::
  "runtime \<Rightarrow> int \<Rightarrow> QwenCredentials \<Rightarrow> token_fetch \<Rightarrow> error + QwenCredentials" where
  "nextCredentials rt now current reply =
     (if falsy_string (refresh_token current)
      then Inl (OAuthCredentialsError ''missing_refresh_token'' None)
      else case reply of
        FetchRejected \<Rightarrow> Inl (OAuthCredentialsError ''refresh_network_error'' None)
      | TokenResponse status payload \<Rightarrow>
          if \<not> response_ok status
          then Inl (OAuthCredentialsError ''refresh_failed'' (Some status))
          else case JSON_parse rt payload of
            None \<Rightarrow> Inl (OAuthCredentialsError ''refresh_parse_failed'' None)
          | Some tokenData \<Rightarrow>
              if tokenData = JNull then Inl TypeError
              else if falsy_string (string_of (property tokenData ''access_token''))
              then Inl (OAuthCredentialsError ''refresh_missing_access_token'' None)
              else
                let expiresInSeconds =
                      (case number_of (property tokenData ''expires_in'') of
                         Some n \<Rightarrow> if n > 0 then n else 3600
                       | None \<Rightarrow> 3600)
                in Inr \<lparr>
                     access_token = string_of (property tokenData ''access_token''),
                     refresh_token =
                       (case string_of (property tokenData ''refresh_token'') of
                          Some r \<Rightarrow> Some r | None \<Rightarrow> refresh_token current),
                     token_type =
                       (case string_of (property tokenData ''token_type'') of
                          Some t \<Rightarrow> Some t | None \<Rightarrow> token_type current),
                     expiry_date = Some (now + expiresInSeconds * 1000),
                     resource_url =
                       (case string_of (property tokenData ''resource_url'') of
                          Some u \<Rightarrow> Some u | None \<Rightarrow> resource_url current) \<rparr>)"

section \<open>oauth.ts: persisting the refreshed credential\<close>

subsection \<open>\<open>JSON.stringify(credentials, null, 2)\<close>\<close>

definition hex_digit_lower :: "nat \<Rightarrow> char" where
  "hex_digit_lower d = ''0123456789abcdef'' ! (d mod 16)"

text \<open>The escape of one code unit inside a JSON string, as \<open>JSON.stringify\<close> writes it.\<close>

definition json_escape :: "char \<Rightarrow> string" where
  "json_escape c =
     (let n = (of_char c :: nat) in
      if n = 0x22 then [CHR 0x5C, CHR 0x22]
      else if n = 0x5C then [CHR 0x5C, CHR 0x5C]
      else if n = 0x08 then [CHR 0x5C, CHR ''b'']
      else if n = 0x0C then [CHR 0x5C, CHR ''f'']
      else if n = 0x0A then [CHR 0x5C, CHR ''n'']
      else if n = 0x0D then [CHR 0x5C, CHR ''r'']
      else if n = 0x09 then [CHR 0x5C, CHR ''t'']
      else if n < 0x20 then [CHR 0x5C, CHR ''u'', CHR ''0'', CHR ''0'',
                              hex_digit_lower (n div 16), hex_digit_lower (n mod 16)]
      else [c])"

definition json_quote :: "string \<Rightarrow> string" where
  "json_quote s = [CHR 0x22] @ concat (map json_escape s) @ [CHR 0x22]"

definition decimal_digit :: "nat \<Rightarrow> char" where
  "decimal_digit d = ''0123456789'' ! (d mod 10)"

fun decimal_nat :: "nat \<Rightarrow> string" where
  "decimal_nat n =
     (if n < 10 then [decimal_digit n]
      else decimal_nat (n div 10) @ [decimal_digit (n mod 10)])"

declare decimal_nat.simps [simp del]

definition decimal :: "int \<Rightarrow> string" where
  "decimal i = (if i < 0 then CHR ''-'' # decimal_nat (nat (- i)) else decimal_nat (nat i))"

text \<open>
  The properties \<open>JSON.stringify\<close> writes for the object literal \<open>nextCredentials\<close>, in the
  order of that literal, each with its rendered value. A property whose value is
  \<open>undefined\<close> is not written.
\<close>

definition written_properties :: "QwenCredentials \<Rightarrow> (string \<times> string) list" where
  "written_properties c =
     (case access_token c of Some v \<Rightarrow> [(''access_token'', json_quote v)] | None \<Rightarrow> [])
     @ (case refresh_token c of Some v \<Rightarrow> [(''refresh_token'', json_quote v)] | None \<Rightarrow> [])
     @ (case token_type c of Some v \<Rightarrow> [(''token_type'', json_quote v)] | None \<Rightarrow> [])
     @ (case resource_url c of Some v \<Rightarrow> [(''resource_url'', json_quote v)] | None \<Rightarrow> [])
     @ (case expiry_date c of Some n \<Rightarrow> [(''expiry_date'', decimal n)] | None \<Rightarrow> [])"

fun join_lines :: "string list \<Rightarrow> string" where
  "join_lines [] = []"
| "join_lines [l] = l"
| "join_lines (l # ls) = l @ [CHR '','', CHR 0x0A] @ join_lines ls"

text \<open>An object with indent 2: one property per line, two spaces in front, \<open>: \<close> after the
  key, a comma between lines; \<open>{}\<close> when no property is written.\<close>

definition JSON_stringify_indent2 :: "QwenCredentials \<Rightarrow> string" where
  "JSON_stringify_indent2 c =
     (case written_properties c of
        [] \<Rightarrow> ''{}''
      | ps \<Rightarrow> [CHR ''{'', CHR 0x0A]
               @ join_lines (map (\<lambda>(k, v). ''  '' @ json_quote k @ '': '' @ v) ps)
               @ [CHR 0x0A, CHR ''}''])"

subsection \<open>\<open>saveCredentials\<close>\<close>

text \<open>The calls to \<open>node:fs\<close>: \<open>mkdir(dir, {recursive, mode})\<close>,
  \<open>writeFile(path, data, {mode})\<close> and \<open>rename(from, to)\<close>.\<close>

datatype fs_call = Mkdir string bool nat | WriteFile string string nat | Rename string string

text \<open>The file system: what each path holds, and the calls made so far.\<close>

record disk =
  entries :: files
  journal :: "fs_call list"

text \<open>
  \<open>uuid\<close> is the value of \<open>randomUUID()\<close>. The three calls are modelled as succeeding;
  \<open>writeFile\<close> creates the temporary file, \<open>rename\<close> moves it over the target. The modes are
  \<open>0o700\<close> = 448 and \<open>0o600\<close> = 384.
\<close>

definition saveCredentials ::
  "runtime \<Rightarrow> OAuthCredentialStoreOptions \<Rightarrow> string \<Rightarrow> QwenCredentials \<Rightarrow> disk \<Rightarrow> disk" where
  "saveCredentials rt options uuid credentials d =
     (let credentialsDir = path_dirname rt (credentialsFile options);
          tempFilePath = credentialsFile options @ ''.tmp.'' @ uuid;
          serialized = JSON_stringify_indent2 credentials @ [CHR 0x0A];
          written = (entries d)(tempFilePath \<mapsto> Content serialized);
          renamed = (written(credentialsFile options := written tempFilePath))(tempFilePath := None)
      in \<lparr> entries = renamed,
           journal = journal d @
             [Mkdir credentialsDir True 448,
              WriteFile tempFilePath serialized 384,
              Rename tempFilePath (credentialsFile options)] \<rparr>)"

text \<open>What one refresh operation takes from outside: the token endpoint's reply, the
  clock when \<open>nextCredentials\<close> is built, and the UUID of the temporary file.\<close>

record refresh_env =
  token_reply :: token_fetch
  clock :: int
  tmp_uuid :: string

definition refreshCredentials ::
  "runtime \<Rightarrow> OAuthCredentialStoreOptions \<Rightarrow> refresh_env \<Rightarrow> QwenCredentials \<Rightarrow> disk
     \<Rightarrow> (error + QwenCredentials) \<times> disk" where
  "refreshCredentials rt options env current d =
     (case nextCredentials rt (clock env) current (token_reply env) of
        Inl e \<Rightarrow> (Inl e, d)
      | Inr next \<Rightarrow> (Inr next, saveCredentials rt options (tmp_uuid env) next d))"

section \<open>oauth.ts: \<open>getValidCredentials\<close>\<close>

definition isTokenValid :: "OAuthCredentialStoreOptions \<Rightarrow> int \<Rightarrow> QwenCredentials \<Rightarrow> bool" where
  "isTokenValid options now credentials =
     (if falsy_string (access_token credentials) then False
      else if falsy_number (expiry_date credentials) then False
      else (case expiry_date credentials of
              None \<Rightarrow> False
            | Some e \<Rightarrow> now < e - tokenRefreshBufferMs options))"

text \<open>
  What \<open>getValidCredentials\<close> does once \<open>readCredentials\<close> has settled with \<open>r\<close>, up to the
  test of \<open>this.refreshPromise\<close>: it returns \<open>current\<close>, throws, or goes on to the refresh.
  \<open>now\<close> is the value of \<open>Date.now()\<close> in \<open>isTokenValid\<close>.
\<close>

datatype decision = ReturnCurrent QwenCredentials | Throw error | NeedRefresh QwenCredentials

definition after_read ::
  "OAuthCredentialStoreOptions \<Rightarrow> int \<Rightarrow> bool \<Rightarrow> error + QwenCredentials \<Rightarrow> decision" where
  "after_read options now forceRefresh r =
     (case r of
        Inl e \<Rightarrow> Throw e
      | Inr current \<Rightarrow>
          if \<not> forceRefresh \<and> isTokenValid options now current then ReturnCurrent current
          else if falsy_string (refresh_token current)
          then Throw (OAuthCredentialsError ''missing_refresh_token'' None)
          else NeedRefresh current)"

subsection \<open>One call running alone\<close>

text \<open>The credential store as one call sees it when no other call is in flight: the file
  system and the number of requests sent to the token endpoint so far. The slot
  \<open>refreshPromise\<close> is empty when the call starts and empty again when it ends.\<close>

record store =
  store_disk :: disk
  token_calls :: nat

definition getValidCredentials ::
  "runtime \<Rightarrow> OAuthCredentialStoreOptions \<Rightarrow> int \<Rightarrow> refresh_env \<Rightarrow> bool \<Rightarrow> store
     \<Rightarrow> (error + QwenCredentials) \<times> store" where
  "getValidCredentials rt options now env forceRefresh s =
     (case after_read options now forceRefresh
             (readCredentials rt options (entries (store_disk s))) of
        ReturnCurrent current \<Rightarrow> (Inr current, s)
      | Throw e \<Rightarrow> (Inl e, s)
      | NeedRefresh current \<Rightarrow>
          (fst (refreshCredentials rt options env current (store_disk s)),
           \<lparr> store_disk = snd (refreshCredentials rt options env current (store_disk s)),
             token_calls = token_calls s + 1 \<rparr>))"

subsection \<open>Calls interleaved on the event loop\<close>

text \<open>
  A call of \<open>getValidCredentials\<close> is suspended at \<open>await this.readCredentials()\<close> and at
  \<open>await this.refreshPromise\<close>. \<open>Reading\<close>: the file has not been read yet; \<open>ReadGot\<close>: the
  file system has produced the outcome of the read, the call has not resumed yet;
  \<open>Awaiting k\<close>: the call awaits refresh operation \<open>k\<close>; \<open>Settled\<close>: the call has returned or
  thrown.
\<close>

datatype call_state =
    Reading bool
  | ReadGot bool "error + QwenCredentials"
  | Awaiting nat
  | Settled "error + QwenCredentials"

text \<open>
  A refresh operation (one call of \<open>refreshCredentials\<close>, which sends one request to the
  token endpoint when it starts): it awaits the reply; it has built \<open>nextCredentials\<close> and
  is inside \<open>saveCredentials\<close>, before or after the rename; it has settled.
\<close>

datatype operation =
    Fetching QwenCredentials
  | Saving QwenCredentials string
  | Renamed QwenCredentials
  | Finished "error + QwenCredentials"

record event_loop =
  loop_disk :: disk
  refreshPromise :: "nat option"
  operations :: "operation list"
  calls :: "call_state list"

text \<open>
  The turns of the event loop. \<open>Invoke force\<close>: a caller calls
  \<open>getValidCredentials(force)\<close>. \<open>ReadIO i\<close>: the file system reads the file for call \<open>i\<close>.
  \<open>ReadDone i now\<close>: call \<open>i\<close> resumes after its read, at clock \<open>now\<close>. \<open>FetchDone k env\<close>: the
  reply to operation \<open>k\<close> arrives. \<open>RenameIO k\<close>: the file system has made the three calls of
  \<open>saveCredentials\<close> for operation \<open>k\<close>. \<open>SaveDone k\<close>: operation \<open>k\<close> resumes after the rename
  and returns. When an operation settles, the calls awaiting it resume one after the other
  in the same turn (they are reactions of one promise), and each runs
  \<open>this.refreshPromise = null\<close>.
\<close>

datatype turn =
    Invoke bool
  | ReadIO nat
  | ReadDone nat int
  | FetchDone nat refresh_env
  | RenameIO nat
  | SaveDone nat

definition resume_waiters :: "nat \<Rightarrow> error + QwenCredentials \<Rightarrow> call_state list \<Rightarrow> call_state list" where
  "resume_waiters k r cs = map (\<lambda>c. if c = Awaiting k then Settled r else c) cs"

definition settle :: "nat \<Rightarrow> error + QwenCredentials \<Rightarrow> event_loop \<Rightarrow> event_loop" where
  "settle k r s =
     s \<lparr> operations := (operations s)[k := Finished r],
         calls := resume_waiters k r (calls s),
         refreshPromise := (if Awaiting k \<in> set (calls s) then None else refreshPromise s) \<rparr>"

text \<open>One turn; \<open>None\<close> when the turn cannot happen in the state.\<close>

definition step ::
  "runtime \<Rightarrow> OAuthCredentialStoreOptions \<Rightarrow> turn \<Rightarrow> event_loop \<Rightarrow> event_loop option" where
  "step rt options t s =
     (case t of
        Invoke force \<Rightarrow> Some (s \<lparr> calls := calls s @ [Reading force] \<rparr>)
      | ReadIO i \<Rightarrow>
          (if i < length (calls s) then
             (case calls s ! i of
                Reading force \<Rightarrow>
                  Some (s \<lparr> calls := (calls s)
                    [i := ReadGot force (readCredentials rt options (entries (loop_disk s)))] \<rparr>)
              | _ \<Rightarrow> None)
           else None)
      | ReadDone i now \<Rightarrow>
          (if i < length (calls s) then
             (case calls s ! i of
                ReadGot force r \<Rightarrow>
                  (case after_read options now force r of
                     ReturnCurrent current \<Rightarrow> Some (s \<lparr> calls := (calls s)[i := Settled (Inr current)] \<rparr>)
                   | Throw e \<Rightarrow> Some (s \<lparr> calls := (calls s)[i := Settled (Inl e)] \<rparr>)
                   | NeedRefresh current \<Rightarrow>
                       (case refreshPromise s of
                          None \<Rightarrow>
                            Some (s \<lparr> refreshPromise := Some (length (operations s)),
                                      operations := operations s @ [Fetching current],
                                      calls := (calls s)[i := Awaiting (length (operations s))] \<rparr>)
                        | Some k \<Rightarrow> Some (s \<lparr> calls := (calls s)[i := Awaiting k] \<rparr>)))
              | _ \<Rightarrow> None)
           else None)
      | FetchDone k env \<Rightarrow>
          (if k < length (operations s) then
             (case operations s ! k of
                Fetching current \<Rightarrow>
                  (case nextCredentials rt (clock env) current (token_reply env) of
                     Inl e \<Rightarrow> Some (settle k (Inl e) s)
                   | Inr next \<Rightarrow>
                       Some (s \<lparr> operations := (operations s)[k := Saving next (tmp_uuid env)] \<rparr>))
              | _ \<Rightarrow> None)
           else None)
      | RenameIO k \<Rightarrow>
          (if k < length (operations s) then
             (case operations s ! k of
                Saving next uuid \<Rightarrow>
                  Some (s \<lparr> loop_disk := saveCredentials rt options uuid next (loop_disk s),
                            operations := (operations s)[k := Renamed next] \<rparr>)
              | _ \<Rightarrow> None)
           else None)
      | SaveDone k \<Rightarrow>
          (if k < length (operations s) then
             (case operations s ! k of
                Renamed next \<Rightarrow> Some (settle k (Inr next) s)
              | _ \<Rightarrow> None)
           else None))"

fun run ::
  "runtime \<Rightarrow> OAuthCredentialStoreOptions \<Rightarrow> turn list \<Rightarrow> event_loop \<Rightarrow> event_loop option" where
  "run rt options [] s = Some s"
| "run rt options (t # ts) s =
     (case step rt options t s of None \<Rightarrow> None | Some s' \<Rightarrow> run rt options ts s')"

text \<open>The store before any call: the slot is empty, no operation has started.\<close>

definition idle :: "disk \<Rightarrow> event_loop" where
  "idle d = \<lparr> loop_disk = d, refreshPromise = None, operations = [], calls = [] \<rparr>"

text \<open>The requests sent to the token endpoint: one for each operation started.\<close>

definition token_requests :: "event_loop \<Rightarrow> nat" where
  "token_requests s = length (operations s)"

text \<open>A call that has passed the test of \<open>this.refreshPromise\<close> or has settled.\<close>

definition decided :: "call_state \<Rightarrow> bool" where
  "decided c = (case c of Awaiting k \<Rightarrow> True | Settled r \<Rightarrow> True | _ \<Rightarrow> False)"

definition unsettled :: "operation \<Rightarrow> bool" where
  "unsettled op = (case op of Finished r \<Rightarrow> False | _ \<Rightarrow> True)"

text \<open>
  The invariant of the slot: an operation that has not settled is the one in the slot,
  every call that awaits an operation awaits the one in the slot, and the operation in
  the slot has not settled and is awaited by at least one call.
\<close>

definition single_flight :: "event_loop \<Rightarrow> bool" where
  "single_flight s =
     ((\<forall>k < length (operations s). unsettled (operations s ! k) \<longrightarrow> refreshPromise s = Some k)
      \<and> (\<forall>k. Awaiting k \<in> set (calls s) \<longrightarrow> refreshPromise s = Some k)
      \<and> (\<forall>k. refreshPromise s = Some k
             \<longrightarrow> k < length (operations s) \<and> unsettled (operations s ! k)
                 \<and> Awaiting k \<in> set (calls s)))"

section \<open>The URL class of the runtime\<close>

text \<open>
  \<open>new URL(input)\<close>, the setters \<open>pathname\<close>, \<open>search\<close> and \<open>hash\<close>, and \<open>toString()\<close>,
  after the URL Standard, for the schemes http, https, ws, wss and ftp. The host parser
  is a parameter (\<open>host_parser\<close> of the runtime).
\<close>

record URL =
  url_scheme :: string
  url_username :: string
  url_password :: string
  url_host :: string
  url_port :: "nat option"
  url_path :: "string list"
  url_query :: "string option"
  url_fragment :: "string option"

subsection \<open>Code units\<close>

definition ascii_lower :: "char \<Rightarrow> char" where
  "ascii_lower c =
     (case map_of (zip ''ABCDEFGHIJKLMNOPQRSTUVWXYZ'' ''abcdefghijklmnopqrstuvwxyz'') c of
        Some l \<Rightarrow> l | None \<Rightarrow> c)"

definition ascii_upper :: "char \<Rightarrow> char" where
  "ascii_upper c =
     (case map_of (zip ''abcdefghijklmnopqrstuvwxyz'' ''ABCDEFGHIJKLMNOPQRSTUVWXYZ'') c of
        Some l \<Rightarrow> l | None \<Rightarrow> c)"

definition is_ascii_alpha :: "char \<Rightarrow> bool" where
  "is_ascii_alpha c = (c \<in> set ''ABCDEFGHIJKLMNOPQRSTUVWXYZabcdefghijklmnopqrstuvwxyz'')"

definition is_ascii_digit :: "char \<Rightarrow> bool" where
  "is_ascii_digit c = (c \<in> set ''0123456789'')"

definition is_c0_control_or_space :: "char \<Rightarrow> bool" where
  "is_c0_control_or_space c = ((of_char c :: nat) \<le> 0x20)"

definition is_tab_or_newline :: "char \<Rightarrow> bool" where
  "is_tab_or_newline c = (c = CHR 0x09 \<or> c = CHR 0x0A \<or> c = CHR 0x0D)"

definition is_slash :: "char \<Rightarrow> bool" where
  "is_slash c = (c = CHR ''/'' \<or> c = CHR 0x5C)"

subsection \<open>Percent-encoding\<close>

definition c0_control_percent_encode_set :: "char \<Rightarrow> bool" where
  "c0_control_percent_encode_set c = ((of_char c :: nat) < 0x20 \<or> (of_char c :: nat) > 0x7E)"

definition fragment_percent_encode_set :: "char \<Rightarrow> bool" where
  "fragment_percent_encode_set c =
     (c0_control_percent_encode_set c \<or> c \<in> set [CHR 0x20, CHR 0x22, CHR ''<'', CHR ''>'', CHR 0x60])"

definition query_percent_encode_set :: "char \<Rightarrow> bool" where
  "query_percent_encode_set c =
     (c0_control_percent_encode_set c \<or> c \<in> set [CHR 0x20, CHR 0x22, CHR ''#'', CHR ''<'', CHR ''>''])"

definition special_query_percent_encode_set :: "char \<Rightarrow> bool" where
  "special_query_percent_encode_set c = (query_percent_encode_set c \<or> c = CHR 0x27)"

definition path_percent_encode_set :: "char \<Rightarrow> bool" where
  "path_percent_encode_set c =
     (query_percent_encode_set c \<or> c \<in> set [CHR ''?'', CHR ''^'', CHR 0x60, CHR ''{'', CHR ''}''])"

definition userinfo_percent_encode_set :: "char \<Rightarrow> bool" where
  "userinfo_percent_encode_set c =
     (path_percent_encode_set c \<or>
      c \<in> set [CHR ''/'', CHR '':'', CHR '';'', CHR ''='', CHR ''@'', CHR ''['', CHR 0x5C, CHR '']'', CHR ''|''])"

definition hex_digit_upper :: "nat \<Rightarrow> char" where
  "hex_digit_upper d = ''0123456789ABCDEF'' ! (d mod 16)"

definition percent_byte :: "nat \<Rightarrow> string" where
  "percent_byte b = [CHR ''%'', hex_digit_upper (b div 16), hex_digit_upper (b mod 16)]"

text \<open>The UTF-8 bytes of a code unit up to U+00FF, each percent-encoded.\<close>

definition utf8_percent_encode :: "char \<Rightarrow> string" where
  "utf8_percent_encode c =
     (let n = (of_char c :: nat) in
      if n < 0x80 then percent_byte n
      else percent_byte (0xC0 + n div 64) @ percent_byte (0x80 + n mod 64))"

definition percent_encode :: "(char \<Rightarrow> bool) \<Rightarrow> string \<Rightarrow> string" where
  "percent_encode encode_set s =
     concat (map (\<lambda>c. if encode_set c then utf8_percent_encode c else [c]) s)"

subsection \<open>The parser\<close>

definition strip_c0_control_or_space :: "string \<Rightarrow> string" where
  "strip_c0_control_or_space s =
     rev (dropWhile is_c0_control_or_space (rev (dropWhile is_c0_control_or_space s)))"

definition remove_tab_newline :: "string \<Rightarrow> string" where
  "remove_tab_newline s = filter (\<lambda>c. \<not> is_tab_or_newline c) s"

definition is_scheme_char :: "char \<Rightarrow> bool" where
  "is_scheme_char c = (is_ascii_alpha c \<or> is_ascii_digit c \<or> c = CHR ''+'' \<or> c = CHR ''-'' \<or> c = CHR ''.'')"

text \<open>Scheme start state and scheme state: the lower-cased scheme and what follows the colon;
  \<open>None\<close> when the input has no scheme (a failure, there being no base URL).\<close>

definition split_scheme :: "string \<Rightarrow> (string \<times> string) option" where
  "split_scheme s =
     (case s of
        [] \<Rightarrow> None
      | c # cs \<Rightarrow>
          if \<not> is_ascii_alpha c then None
          else (case dropWhile is_scheme_char s of
                  [] \<Rightarrow> None
                | d # rest \<Rightarrow>
                    if d = CHR '':'' then Some (map ascii_lower (takeWhile is_scheme_char s), rest)
                    else None))"

text \<open>The default port of each scheme that is modelled.\<close>

definition special_port :: "string \<Rightarrow> nat option" where
  "special_port scheme =
     map_of [(''ftp'', 21), (''http'', 80), (''https'', 443), (''ws'', 80), (''wss'', 443)] scheme"

definition is_authority_end :: "char \<Rightarrow> bool" where
  "is_authority_end c = (c = CHR ''/'' \<or> c = CHR ''?'' \<or> c = CHR ''#'' \<or> c = CHR 0x5C)"

text \<open>Authority state: the text before the last \<open>@\<close> holds the credentials, the text after
  it the host and port.\<close>

definition split_credentials :: "string \<Rightarrow> string option \<times> string" where
  "split_credentials authority =
     (if CHR ''@'' \<in> set authority
      then (Some (rev (tl (dropWhile (\<lambda>c. c \<noteq> CHR ''@'') (rev authority)))),
            rev (takeWhile (\<lambda>c. c \<noteq> CHR ''@'') (rev authority)))
      else (None, authority))"

text \<open>Host state: the buffer up to the first colon outside square brackets, and the text
  after that colon when there is one.\<close>

fun host_state :: "bool \<Rightarrow> string \<Rightarrow> string \<Rightarrow> string \<times> string option" where
  "host_state inside buffer [] = (buffer, None)"
| "host_state inside buffer (c # cs) =
     (if c = CHR '':'' \<and> \<not> inside then (buffer, Some cs)
      else host_state (if c = CHR ''['' then True else if c = CHR '']'' then False else inside)
             (buffer @ [c]) cs)"

definition digit_value :: "char \<Rightarrow> nat" where
  "digit_value c = (of_char c :: nat) - 48"

definition decimal_value :: "string \<Rightarrow> nat" where
  "decimal_value s = foldl (\<lambda>n c. 10 * n + digit_value c) 0 s"

text \<open>Port state: \<open>None\<close> is a failure; \<open>Some None\<close> the null port (no digits, or the
  scheme's default port).\<close>

definition port_state :: "nat \<Rightarrow> string \<Rightarrow> nat option option" where
  "port_state default_port buffer =
     (if \<not> list_all is_ascii_digit buffer then None
      else if buffer = [] then Some None
      else if decimal_value buffer > 65535 then None
      else if decimal_value buffer = default_port then Some None
      else Some (Some (decimal_value buffer)))"

text \<open>The text between slashes (a backslash counts as a slash).\<close>

fun split_slash :: "string \<Rightarrow> string \<Rightarrow> string list" where
  "split_slash buffer [] = [buffer]"
| "split_slash buffer (c # cs) =
     (if is_slash c then buffer # split_slash [] cs else split_slash (buffer @ [c]) cs)"

definition is_single_dot :: "string \<Rightarrow> bool" where
  "is_single_dot buffer = (map ascii_lower buffer \<in> set [''.'', ''%2e''])"

definition is_double_dot :: "string \<Rightarrow> bool" where
  "is_double_dot buffer = (map ascii_lower buffer \<in> set [''..'', ''.%2e'', ''%2e.'', ''%2e%2e''])"

text \<open>Path state, one buffer at a time; the last buffer is the one ended by the end of the
  input.\<close>

fun path_state :: "string list \<Rightarrow> string list \<Rightarrow> string list" where
  "path_state path [] = path"
| "path_state path (b # bs) =
     (let buffer = percent_encode path_percent_encode_set b in
      if is_double_dot buffer
      then path_state (butlast path @ (if bs = [] then [[]] else [])) bs
      else if is_single_dot buffer
      then path_state (path @ (if bs = [] then [[]] else [])) bs
      else path_state (path @ [buffer]) bs)"

text \<open>Path start state and path state on a text without \<open>?\<close> and \<open>#\<close> terminators.\<close>

definition parse_path :: "string \<Rightarrow> string list" where
  "parse_path s =
     path_state []
       (split_slash [] (case s of [] \<Rightarrow> [] | c # cs \<Rightarrow> if is_slash c then cs else s))"

definition parse_query_fragment :: "string \<Rightarrow> string option \<times> string option" where
  "parse_query_fragment s =
     (case s of
        [] \<Rightarrow> (None, None)
      | c # cs \<Rightarrow>
          if c = CHR ''?''
          then (Some (percent_encode special_query_percent_encode_set
                        (takeWhile (\<lambda>x. x \<noteq> CHR ''#'') cs)),
                (case dropWhile (\<lambda>x. x \<noteq> CHR ''#'') cs of
                   [] \<Rightarrow> None
                 | h # fs \<Rightarrow> Some (percent_encode fragment_percent_encode_set fs)))
          else (None, Some (percent_encode fragment_percent_encode_set cs)))"

definition new_URL :: "runtime \<Rightarrow> string \<Rightarrow> error + URL" where
  "new_URL rt input =
     (case split_scheme (remove_tab_newline (strip_c0_control_or_space input)) of
        None \<Rightarrow> Inl TypeError
      | Some (scheme, rest) \<Rightarrow>
          (case special_port scheme of
             None \<Rightarrow> Inl NotModelled
           | Some default_port \<Rightarrow>
               let remaining = dropWhile is_slash rest;
                   authority = takeWhile (\<lambda>c. \<not> is_authority_end c) remaining;
                   after = dropWhile (\<lambda>c. \<not> is_authority_end c) remaining;
                   credentials = fst (split_credentials authority);
                   hostport = snd (split_credentials authority);
                   hostname = fst (host_state False [] hostport);
                   portstr = (case snd (host_state False [] hostport) of None \<Rightarrow> [] | Some p \<Rightarrow> p)
               in if hostname = [] then Inl TypeError
                  else (case host_parser rt hostname of
                     None \<Rightarrow> Inl TypeError
                   | Some h \<Rightarrow>
                       (case port_state default_port portstr of
                          None \<Rightarrow> Inl TypeError
                        | Some port \<Rightarrow>
                            Inr \<lparr> url_scheme = scheme,
                                  url_username =
                                    (case credentials of None \<Rightarrow> [] | Some cr \<Rightarrow>
                                       percent_encode userinfo_percent_encode_set
                                         (takeWhile (\<lambda>c. c \<noteq> CHR '':'') cr)),
                                  url_password =
                                    (case credentials of None \<Rightarrow> [] | Some cr \<Rightarrow>
                                       percent_encode userinfo_percent_encode_set
                                         (drop 1 (dropWhile (\<lambda>c. c \<noteq> CHR '':'') cr))),
                                  url_host = h,
                                  url_port = port,
                                  url_path =
                                    parse_path (takeWhile (\<lambda>c. c \<noteq> CHR ''?'' \<and> c \<noteq> CHR ''#'') after),
                                  url_query =
                                    fst (parse_query_fragment
                                      (dropWhile (\<lambda>c. c \<noteq> CHR ''?'' \<and> c \<noteq> CHR ''#'') after)),
                                  url_fragment =
                                    snd (parse_query_fragment
                                      (dropWhile (\<lambda>c. c \<noteq> CHR ''?'' \<and> c \<noteq> CHR ''#'') after)) \<rparr>))))"

subsection \<open>Getters, setters and the serialiser\<close>

text \<open>The path serialiser: a slash in front of each segment.\<close>

definition serialize_path :: "string list \<Rightarrow> string" where
  "serialize_path segments = concat (map (\<lambda>segment. CHR ''/'' # segment) segments)"

definition pathname :: "URL \<Rightarrow> string" where
  "pathname u = serialize_path (url_path u)"

definition set_pathname :: "URL \<Rightarrow> string \<Rightarrow> URL" where
  "set_pathname u v = u \<lparr> url_path := parse_path (remove_tab_newline v) \<rparr>"

definition set_search :: "URL \<Rightarrow> string \<Rightarrow> URL" where
  "set_search u v =
     (if v = [] then u \<lparr> url_query := None \<rparr>
      else u \<lparr> url_query :=
             Some (percent_encode special_query_percent_encode_set
                     (remove_tab_newline (case v of [] \<Rightarrow> [] | c # cs \<Rightarrow> if c = CHR ''?'' then cs else v))) \<rparr>)"

definition set_hash :: "URL \<Rightarrow> string \<Rightarrow> URL" where
  "set_hash u v =
     (if v = [] then u \<lparr> url_fragment := None \<rparr>
      else u \<lparr> url_fragment :=
             Some (percent_encode fragment_percent_encode_set
                     (remove_tab_newline (case v of [] \<Rightarrow> [] | c # cs \<Rightarrow> if c = CHR ''#'' then cs else v))) \<rparr>)"

text \<open>The serialised credentials, host and port.\<close>

definition serialized_authority :: "URL \<Rightarrow> string" where
  "serialized_authority u =
     (if url_username u \<noteq> [] \<or> url_password u \<noteq> []
      then url_username u @ (if url_password u \<noteq> [] then CHR '':'' # url_password u else []) @ ''@''
      else [])
     @ url_host u
     @ (case url_port u of None \<Rightarrow> [] | Some p \<Rightarrow> CHR '':'' # decimal_nat p)"

text \<open>\<open>toString()\<close>, which is \<open>href\<close>.\<close>

definition href :: "URL \<Rightarrow> string" where
  "href u =
     url_scheme u @ ''://'' @ serialized_authority u @ pathname u
     @ (case url_query u of None \<Rightarrow> [] | Some q \<Rightarrow> CHR ''?'' # q)
     @ (case url_fragment u of None \<Rightarrow> [] | Some f \<Rightarrow> CHR ''#'' # f)"

subsection \<open>Paths and queries that the setters leave as they are\<close>

text \<open>A path segment that the path state appends unchanged: no code unit of it is
  percent-encoded, and it is not a dot segment.\<close>

definition plain_segment :: "string \<Rightarrow> bool" where
  "plain_segment b =
     (list_all (\<lambda>c. \<not> path_percent_encode_set c) b \<and> \<not> is_single_dot b \<and> \<not> is_double_dot b)"

text \<open>A path in the form the URL parser produces: it starts with a slash, has no
  backslash, and each of its segments is plain.\<close>

definition normal_pathname :: "string \<Rightarrow> bool" where
  "normal_pathname p =
     (case p of
        [] \<Rightarrow> False
      | c # cs \<Rightarrow> c = CHR ''/'' \<and> CHR 0x5C \<notin> set cs \<and> list_all plain_segment (split_slash [] cs))"

text \<open>A search string in the form the URL parser produces: empty, or a question mark and
  code units that the query state does not encode.\<close>

definition normal_search :: "string \<Rightarrow> bool" where
  "normal_search q =
     (case q of
        [] \<Rightarrow> True
      | c # cs \<Rightarrow> c = CHR ''?'' \<and> list_all (\<lambda>x. \<not> special_query_percent_encode_set x) cs)"

section \<open>oauth.ts: the URL resolver\<close>

definition DEFAULT_DASHSCOPE_BASE_URL :: string where
  "DEFAULT_DASHSCOPE_BASE_URL = ''https://dashscope.aliyuncs.com/compatible-mode/v1''"

text \<open>The white space and line terminators \<open>String.prototype.trim\<close> removes, among the code
  units up to U+00FF.\<close>

definition is_js_whitespace :: "char \<Rightarrow> bool" where
  "is_js_whitespace c =
     (c \<in> set [CHR 0x09, CHR 0x0A, CHR 0x0B, CHR 0x0C, CHR 0x0D, CHR 0x20, CHR 0xA0])"

definition trim :: "string \<Rightarrow> string" where
  "trim s = rev (dropWhile is_js_whitespace (rev (dropWhile is_js_whitespace s)))"

definition startsWith :: "string \<Rightarrow> string \<Rightarrow> bool" where
  "startsWith s prefix = (take (length prefix) s = prefix)"

definition endsWith :: "string \<Rightarrow> string \<Rightarrow> bool" where
  "endsWith s suffix = (length suffix \<le> length s \<and> drop (length s - length suffix) s = suffix)"

text \<open>\<open>/^https?:\/\//i.test(input)\<close>.\<close>

definition has_http_prefix :: "string \<Rightarrow> bool" where
  "has_http_prefix input =
     (map ascii_lower (take 7 input) = ''http://'' \<or> map ascii_lower (take 8 input) = ''https://'')"

text \<open>\<open>replace(/\/+$/, '')\<close>.\<close>

definition strip_trailing_slashes :: "string \<Rightarrow> string" where
  "strip_trailing_slashes s = rev (dropWhile (\<lambda>c. c = CHR ''/'') (rev s))"

text \<open>\<open>replace(/\/$/, '')\<close>.\<close>

definition strip_final_slash :: "string \<Rightarrow> string" where
  "strip_final_slash s = (if s \<noteq> [] \<and> last s = CHR ''/'' then butlast s else s)"

definition normalizeResourceUrl :: "runtime \<Rightarrow> string option \<Rightarrow> error + string" where
  "normalizeResourceUrl rt resourceUrl =
     (let input = (case resourceUrl of
                     None \<Rightarrow> DEFAULT_DASHSCOPE_BASE_URL
                   | Some r \<Rightarrow> if trim r = [] then DEFAULT_DASHSCOPE_BASE_URL else trim r);
          withProtocol = (if has_http_prefix input then input else ''https://'' @ input)
      in case new_URL rt withProtocol of
           Inl e \<Rightarrow> Inl e
         | Inr parsed \<Rightarrow>
             let normalized = set_hash (set_search parsed []) [];
                 cleanPath = strip_trailing_slashes (pathname normalized)
             in Inr (strip_final_slash (href
                  (if cleanPath = [] \<or> cleanPath = ''/'' then set_pathname normalized ''/v1''
                   else if endsWith cleanPath ''/v1'' then set_pathname normalized cleanPath
                   else set_pathname normalized (cleanPath @ ''/v1'')))))"

definition buildUpstreamUrl :: "runtime \<Rightarrow> string \<Rightarrow> string \<Rightarrow> string \<Rightarrow> error + string" where
  "buildUpstreamUrl rt upstreamBaseUrl requestPath requestSearch =
     (if \<not> startsWith requestPath ''/v1''
      then Inl (OAuthCredentialsError ''invalid_proxy_path'' None)
      else case new_URL rt upstreamBaseUrl of
             Inl e \<Rightarrow> Inl e
           | Inr upstream \<Rightarrow>
               let basePath = strip_trailing_slashes (pathname upstream);
                   suffix = (if requestPath = ''/v1'' then [] else drop (length ''/v1'') requestPath)
               in Inr (href (set_hash (set_search (set_pathname upstream (basePath @ suffix))
                                          requestSearch) [])))"

definition getUpstreamBaseUrl ::
  "runtime \<Rightarrow> QwenCredentials \<Rightarrow> string option \<Rightarrow> error + string" where
  "getUpstreamBaseUrl rt credentials overrideBaseUrl =
     normalizeResourceUrl rt
       (case overrideBaseUrl of Some b \<Rightarrow> Some b | None \<Rightarrow> resource_url credentials)"

section \<open>server.ts: the request forwarder\<close>

subsection \<open>Reading the request body\<close>

definition MAX_REQUEST_BODY_BYTES :: nat where
  "MAX_REQUEST_BODY_BYTES = 20 * 1024 * 1024"

text \<open>\<open>toUpperCase\<close> on the letters a to z. The other code units are left as they are: none
  of them becomes a letter of \<open>GET\<close> or \<open>HEAD\<close> under JavaScript's mapping, so the two
  comparisons of \<open>mayHaveBody\<close> are exact.\<close>

definition toUpperCase :: "string \<Rightarrow> string" where
  "toUpperCase s = map ascii_upper s"

definition mayHaveBody :: "string \<Rightarrow> bool" where
  "mayHaveBody method =
     (let normalized = toUpperCase method in normalized \<noteq> ''GET'' \<and> normalized \<noteq> ''HEAD'')"

text \<open>
  The \<open>for await\<close> loop of \<open>readRequestBody\<close> over the chunks the request stream will
  deliver; a chunk is a list of bytes. The result comes with the chunks not taken from
  the stream.
\<close>

fun read_chunks ::
  "string list \<Rightarrow> nat \<Rightarrow> string list \<Rightarrow> (error + string list) \<times> string list" where
  "read_chunks chunks totalSize [] = (Inr chunks, [])"
| "read_chunks chunks totalSize (buffer # rest) =
     (if totalSize + length buffer > MAX_REQUEST_BODY_BYTES
      then (Inl (HttpRequestError 413 ''request_body_too_large''), rest)
      else read_chunks (chunks @ [buffer]) (totalSize + length buffer) rest)"

definition readRequestBody ::
  "string option \<Rightarrow> string list \<Rightarrow> (error + string option) \<times> string list" where
  "readRequestBody method stream =
     (if \<not> mayHaveBody (case method of None \<Rightarrow> ''GET'' | Some m \<Rightarrow> m) then (Inr None, stream)
      else case read_chunks [] 0 stream of
             (Inl e, unread) \<Rightarrow> (Inl e, unread)
           | (Inr chunks, unread) \<Rightarrow>
               (if chunks = [] then Inr None else Inr (Some (concat chunks)), unread))"

subsection \<open>One outbound attempt\<close>

record AppConfig =
  upstreamBaseUrl :: "string option"
  requestTimeoutMs :: nat

text \<open>The inbound request as the forwarder uses it. Of the headers only the outbound
  \<open>Authorization\<close> is modelled.\<close>

record request =
  req_method :: "string option"
  req_path :: string
  req_search :: string
  req_stream :: "string list"

record outbound_call =
  out_url :: string
  out_method :: "string option"
  out_authorization :: string
  out_body :: "string option"

text \<open>A response of the upstream: its status, its headers and its body (\<open>None\<close> when
  \<open>upstream.body\<close> is null).\<close>

record upstream_response =
  up_status :: nat
  up_headers :: "(string \<times> string) list"
  up_body :: "string option"

text \<open>The outcome of the outbound \<open>fetch\<close>: aborted by the timeout, another rejection, or a
  response.\<close>

datatype upstream_fetch = Aborted | Unreachable | Reply upstream_response

text \<open>What one attempt takes from outside: the clock of \<open>isTokenValid\<close>, the surroundings
  of a refresh, and the outcome of the outbound \<open>fetch\<close>.\<close>

record attempt_env =
  at_now :: int
  at_refresh :: refresh_env
  at_fetch :: upstream_fetch

text \<open>What the forwarder does that can be seen from outside, in order.\<close>

datatype event =
    GetCredentials bool
  | Outbound outbound_call
  | CancelBody
  | Relay upstream_response

record forwarder =
  fw_store :: store
  fw_trace :: "event list"

definition requestUpstream ::
  "runtime \<Rightarrow> AppConfig \<Rightarrow> OAuthCredentialStoreOptions \<Rightarrow> attempt_env \<Rightarrow> request
     \<Rightarrow> string option \<Rightarrow> bool \<Rightarrow> forwarder \<Rightarrow> (error + upstream_response) \<times> forwarder" where
  "requestUpstream rt config options env req requestBody forceRefresh fw =
     (let got = getValidCredentials rt options (at_now env) (at_refresh env) forceRefresh (fw_store fw);
          fw1 = \<lparr> fw_store = snd got, fw_trace = fw_trace fw @ [GetCredentials forceRefresh] \<rparr>
      in case fst got of
           Inl e \<Rightarrow> (Inl e, fw1)
         | Inr credentials \<Rightarrow>
             (case access_token credentials of
                None \<Rightarrow> (Inl (OAuthCredentialsError ''missing_access_token'' None), fw1)
              | Some token \<Rightarrow>
                  if token = [] then (Inl (OAuthCredentialsError ''missing_access_token'' None), fw1)
                  else (case getUpstreamBaseUrl rt credentials (upstreamBaseUrl config) of
                     Inl e \<Rightarrow> (Inl e, fw1)
                   | Inr base \<Rightarrow>
                       (case buildUpstreamUrl rt base (req_path req) (req_search req) of
                          Inl e \<Rightarrow> (Inl e, fw1)
                        | Inr upstreamUrl \<Rightarrow>
                            let fw2 = fw1 \<lparr> fw_trace := fw_trace fw1 @
                                  [Outbound \<lparr> out_url = upstreamUrl, out_method = req_method req,
                                     out_authorization = ''Bearer '' @ token,
                                     out_body = requestBody \<rparr>] \<rparr>
                            in (case at_fetch env of
                                  Aborted \<Rightarrow> (Inl (HttpRequestError 504 ''upstream_timeout''), fw2)
                                | Unreachable \<Rightarrow>
                                    (Inl (HttpRequestError 502 ''upstream_unavailable''), fw2)
                                | Reply response \<Rightarrow> (Inr response, fw2))))))"

subsection \<open>\<open>proxyRequest\<close>\<close>

definition HOP_BY_HOP_HEADERS :: "string list" where
  "HOP_BY_HOP_HEADERS =
     [''connection'', ''keep-alive'', ''proxy-authenticate'', ''proxy-authorization'', ''te'',
      ''trailer'', ''transfer-encoding'', ''upgrade'', ''proxy-connection'']"

text \<open>What the client receives from \<open>relayUpstreamResponse\<close>: the status, the headers
  set on the response, and the body (the empty text when the upstream has no body
  stream).\<close>

record client_response =
  res_status :: nat
  res_headers :: "(string \<times> string) list"
  res_body :: string

text \<open>
  \<open>res.setHeader(name, value)\<close>: the response keeps one entry for each lower-cased name; a
  later value replaces the earlier one in its place, under the name as last given. The
  names and values are those of a response that \<open>fetch\<close> has parsed, which \<open>setHeader\<close>
  accepts.
\<close>

fun setHeader :: "(string \<times> string) list \<Rightarrow> string \<Rightarrow> string \<Rightarrow> (string \<times> string) list" where
  "setHeader [] name v = [(name, v)]"
| "setHeader ((n, w) # hs) name v =
     (if map ascii_lower n = map ascii_lower name then (name, v) # hs
      else (n, w) # setHeader hs name v)"


text \<open>The loop of \<open>copyUpstreamResponseHeaders\<close> over \<open>upstream.headers.entries()\<close>, on the
  headers the response has so far.\<close>

definition copyUpstreamResponseHeaders ::
  "upstream_response \<Rightarrow> (string \<times> string) list \<Rightarrow> (string \<times> string) list" where
  "copyUpstreamResponseHeaders upstream res =
     foldl (\<lambda>hs (key, v).
              if map ascii_lower key \<in> set HOP_BY_HOP_HEADERS then hs else setHeader hs key v)
       res (up_headers upstream)"

definition relayUpstreamResponse :: "upstream_response \<Rightarrow> forwarder \<Rightarrow> client_response \<times> forwarder" where
  "relayUpstreamResponse upstream fw =
     (\<lparr> res_status = up_status upstream,
        res_headers = copyUpstreamResponseHeaders upstream [],
        res_body = (case up_body upstream of None \<Rightarrow> [] | Some b \<Rightarrow> b) \<rparr>,
      fw \<lparr> fw_trace := fw_trace fw @ [Relay upstream] \<rparr>)"

text \<open>\<open>await firstResponse.body?.cancel()\<close>: a response without a body stream has nothing to
  cancel.\<close>

definition cancel_body :: "upstream_response \<Rightarrow> forwarder \<Rightarrow> forwarder" where
  "cancel_body response fw =
     (case up_body response of
        None \<Rightarrow> fw
      | Some b \<Rightarrow> fw \<lparr> fw_trace := fw_trace fw @ [CancelBody] \<rparr>)"

text \<open>\<open>first\<close> and \<open>retry\<close> are the surroundings of the first attempt and of the retry.\<close>

definition proxyRequest ::
  "runtime \<Rightarrow> AppConfig \<Rightarrow> OAuthCredentialStoreOptions \<Rightarrow> attempt_env \<Rightarrow> attempt_env \<Rightarrow> request
     \<Rightarrow> string option \<Rightarrow> forwarder \<Rightarrow> (error + client_response) \<times> forwarder" where
  "proxyRequest rt config options first retry req requestBody fw =
     (case requestUpstream rt config options first req requestBody False fw of
        (Inl e, fw1) \<Rightarrow> (Inl e, fw1)
      | (Inr firstResponse, fw1) \<Rightarrow>
          if up_status firstResponse \<noteq> 401
          then (case relayUpstreamResponse firstResponse fw1 of (res, fw2) \<Rightarrow> (Inr res, fw2))
          else
            (case requestUpstream rt config options retry req requestBody True
                    (cancel_body firstResponse fw1) of
               (Inl e, fw3) \<Rightarrow> (Inl e, fw3)
             | (Inr retryResponse, fw3) \<Rightarrow>
                 (case relayUpstreamResponse retryResponse fw3 of (res, fw4) \<Rightarrow> (Inr res, fw4))))"

subsection \<open>Translating an error at the request boundary\<close>

text \<open>What \<open>sendOpenAIError\<close> is called with: the status code, the \<open>type\<close> and the \<open>code\<close> of
  the envelope.\<close>

record envelope =
  env_status :: nat
  env_type :: string
  env_code :: string

definition handleRequestError :: "error \<Rightarrow> envelope" where
  "handleRequestError err =
     (case err of
        HttpRequestError statusCode code \<Rightarrow>
          \<lparr> env_status = statusCode,
            env_type = (if statusCode = 413 then ''invalid_request_error'' else ''api_error''),
            env_code = code \<rparr>
      | OAuthCredentialsError code sc \<Rightarrow>
          let statusCode =
                (case sc of
                   None \<Rightarrow> 401
                 | Some s \<Rightarrow> if s \<noteq> 0 \<and> s \<ge> 500 then 502 else s)
          in \<lparr> env_status = statusCode,
               env_type = (if statusCode = 401 then ''authentication_error'' else ''api_error''),
               env_code = code \<rparr>
      | _ \<Rightarrow>
          \<lparr> env_status = 500, env_type = ''api_error'', env_code = ''internal_error'' \<rparr>)"

subsection \<open>The request listener, once the local routes have passed\<close>

text \<open>The \<open>try\<close> block of the listener of \<open>createProxyServer\<close> and its \<open>catch\<close>: what the
  client is sent, and the forwarder afterwards.\<close>

datatype sent = Proxied client_response | Failed envelope

definition listener ::
  "runtime \<Rightarrow> AppConfig \<Rightarrow> OAuthCredentialStoreOptions \<Rightarrow> attempt_env \<Rightarrow> attempt_env \<Rightarrow> request
     \<Rightarrow> forwarder \<Rightarrow> sent \<times> forwarder" where
  "listener rt config options first retry req fw =
     (case fst (readRequestBody (req_method req) (req_stream req)) of
        Inl e \<Rightarrow> (Failed (handleRequestError e), fw)
      | Inr requestBody \<Rightarrow>
          (case proxyRequest rt config options first retry req requestBody fw of
             (Inl e, fw1) \<Rightarrow> (Failed (handleRequestError e), fw1)
           | (Inr res, fw1) \<Rightarrow> (Proxied res, fw1)))"

section \<open>A runtime for concrete instances\<close>

text \<open>
  A host parser for host names of ASCII letters, digits, hyphens and dots that end in a
  letter: it lower-cases them, as the URL Standard does, and rejects every other host.
  \<open>JSON.parse\<close> is given on the texts the instances below use; \<open>path.dirname\<close> cuts at the
  last slash.
\<close>

definition ascii_host :: "string \<Rightarrow> string option" where
  "ascii_host h =
     (if h \<noteq> []
         \<and> list_all (\<lambda>c. is_ascii_alpha c \<or> is_ascii_digit c \<or> c = CHR ''-'' \<or> c = CHR ''.'') h
         \<and> is_ascii_alpha (last h)
      then Some (map ascii_lower h) else None)"

definition example_JSON_parse :: "string \<Rightarrow> json option" where
  \<open>example_JSON_parse =
     map_of [(''{"access_token":"a"}'', JObject [(''access_token'', JString ''a'')]),
             (''{"access_token":"b"}'', JObject [(''access_token'', JString ''b'')]),
             (''{"access_token":"t","refresh_token":"r","expiry_date":100000}'',
              JObject [(''access_token'', JString ''t''), (''refresh_token'', JString ''r''),
                       (''expiry_date'', JNumber 100000)]),
             (''{\<newline>  "access_token": "a",\<newline>  "refresh_token": "r",\<newline>  "expiry_date": 3600000\<newline>}\<newline>'',
              JObject [(''access_token'', JString ''a''), (''refresh_token'', JString ''r''),
                       (''expiry_date'', JNumber 3600000)]),
             (''null'', JNull),
             (''{}'', JObject [])]\<close>

definition example_runtime :: runtime where
  "example_runtime =
     \<lparr> JSON_parse = example_JSON_parse,
       host_parser = ascii_host,
       path_dirname = (\<lambda>p. rev (drop 1 (dropWhile (\<lambda>c. c \<noteq> CHR ''/'') (rev p)))) \<rparr>"

section \<open>Verified properties\<close>

subsection \<open>Refresh failures at the client boundary\<close>

text \<open>
  Claim C8. When the token endpoint answers a refresh with a status outside 200..299, the
  operation fails with \<open>refresh_failed\<close> carrying that status. At the request boundary the
  failure is sent with that status, except that a status of 500 or more becomes 502; the
  envelope's type is \<open>authentication_error\<close> exactly when the status sent is 401 and
  \<open>api_error\<close> otherwise.
\<close>

theorem refresh_failed_surfaced:
  assumes "\<not> falsy_string (refresh_token current)" and "\<not> response_ok status"
  shows "nextCredentials rt now current (TokenResponse status payload)
           = Inl (OAuthCredentialsError ''refresh_failed'' (Some status))
       \<and> env_status (handleRequestError (OAuthCredentialsError ''refresh_failed'' (Some status)))
           = (if status \<ge> 500 then 502 else status)
       \<and> env_code (handleRequestError (OAuthCredentialsError ''refresh_failed'' (Some status)))
           = ''refresh_failed''
       \<and> env_type (handleRequestError (OAuthCredentialsError ''refresh_failed'' (Some status)))
           = (if env_status (handleRequestError (OAuthCredentialsError ''refresh_failed'' (Some status))) = 401
              then ''authentication_error'' else ''api_error'')"
  using assms by (simp add: nextCredentials_def handleRequestError_def Let_def)

theorem refresh_failed_surfaced_witness:
  "nextCredentials \<lparr> JSON_parse = (\<lambda>_. None), host_parser = (\<lambda>_. None), path_dirname = id \<rparr>
     0 \<lparr> access_token = None, refresh_token = Some ''r'', token_type = None,
       expiry_date = None, resource_url = None \<rparr> (TokenResponse 503 ''busy'')
     = Inl (OAuthCredentialsError ''refresh_failed'' (Some 503))
   \<and> env_status (handleRequestError (OAuthCredentialsError ''refresh_failed'' (Some 503))) = 502
   \<and> env_type (handleRequestError (OAuthCredentialsError ''refresh_failed'' (Some 503))) = ''api_error''"
  using refresh_failed_surfaced [of "\<lparr> access_token = None, refresh_token = Some ''r'',
      token_type = None, expiry_date = None, resource_url = None \<rparr>" 503
      "\<lparr> JSON_parse = (\<lambda>_. None), host_parser = (\<lambda>_. None), path_dirname = id \<rparr>" 0 "''busy''"]
  by (simp add: response_ok_def)

subsection \<open>Evaluation of the decimal rendering\<close>

lemma decimal_nat_digit: "n < 10 \<Longrightarrow> decimal_nat n = [decimal_digit n]"
  by (simp add: decimal_nat.simps)

lemma decimal_nat_more:
  "10 \<le> n \<Longrightarrow> decimal_nat n = decimal_nat (n div 10) @ [decimal_digit (n mod 10)]"
  by (subst decimal_nat.simps) simp

lemmas eval_decimal = decimal_def decimal_nat_digit decimal_nat_more decimal_digit_def

subsection \<open>Evaluation of the URL functions on concrete inputs\<close>

lemma example_runtime_fields:
  "JSON_parse example_runtime = example_JSON_parse"
  "host_parser example_runtime = ascii_host"
  by (simp_all add: example_runtime_def)

lemma normalizeResourceUrl_eq:
  "normalizeResourceUrl rt resourceUrl =
     (case new_URL rt
             (if has_http_prefix (case resourceUrl of
                     None \<Rightarrow> DEFAULT_DASHSCOPE_BASE_URL
                   | Some r \<Rightarrow> if trim r = [] then DEFAULT_DASHSCOPE_BASE_URL else trim r)
              then (case resourceUrl of
                     None \<Rightarrow> DEFAULT_DASHSCOPE_BASE_URL
                   | Some r \<Rightarrow> if trim r = [] then DEFAULT_DASHSCOPE_BASE_URL else trim r)
              else ''https://'' @ (case resourceUrl of
                     None \<Rightarrow> DEFAULT_DASHSCOPE_BASE_URL
                   | Some r \<Rightarrow> if trim r = [] then DEFAULT_DASHSCOPE_BASE_URL else trim r)) of
        Inl e \<Rightarrow> Inl e
      | Inr parsed \<Rightarrow>
          Inr (strip_final_slash (href (set_pathname (set_hash (set_search parsed []) [])
            (if strip_trailing_slashes (pathname parsed) = []
                \<or> strip_trailing_slashes (pathname parsed) = ''/'' then ''/v1''
             else if endsWith (strip_trailing_slashes (pathname parsed)) ''/v1''
             then strip_trailing_slashes (pathname parsed)
             else strip_trailing_slashes (pathname parsed) @ ''/v1'')))))"
  by (simp add: normalizeResourceUrl_def Let_def pathname_def set_hash_def set_search_def
           split: sum.splits)

lemma buildUpstreamUrl_eq:
  "buildUpstreamUrl rt base requestPath requestSearch =
     (if \<not> startsWith requestPath ''/v1''
      then Inl (OAuthCredentialsError ''invalid_proxy_path'' None)
      else case new_URL rt base of
             Inl e \<Rightarrow> Inl e
           | Inr upstream \<Rightarrow>
               Inr (href (set_hash (set_search (set_pathname upstream
                  (strip_trailing_slashes (pathname upstream)
                   @ (if requestPath = ''/v1'' then [] else drop (length ''/v1'') requestPath)))
                  requestSearch) [])))"
  by (simp add: buildUpstreamUrl_def Let_def split: sum.splits)

lemmas eval_url =
  new_URL_def split_scheme_def special_port_def is_scheme_char_def is_ascii_alpha_def
  is_ascii_digit_def ascii_lower_def strip_c0_control_or_space_def is_c0_control_or_space_def
  remove_tab_newline_def is_tab_or_newline_def is_slash_def is_authority_end_def
  split_credentials_def port_state_def decimal_value_def digit_value_def parse_path_def
  is_single_dot_def is_double_dot_def percent_encode_def utf8_percent_encode_def
  percent_byte_def hex_digit_upper_def
  path_percent_encode_set_def query_percent_encode_set_def special_query_percent_encode_set_def
  fragment_percent_encode_set_def userinfo_percent_encode_set_def c0_control_percent_encode_set_def
  parse_query_fragment_def pathname_def serialize_path_def set_pathname_def set_search_def set_hash_def href_def
  serialized_authority_def
  normalizeResourceUrl_eq buildUpstreamUrl_eq getUpstreamBaseUrl_def startsWith_def endsWith_def
  has_http_prefix_def strip_trailing_slashes_def strip_final_slash_def trim_def
  is_js_whitespace_def DEFAULT_DASHSCOPE_BASE_URL_def
  example_runtime_fields ascii_host_def Let_def


subsection \<open>What a successful refresh exchange yields\<close>

lemma nextCredentials_InrD:
  assumes "nextCredentials rt now current reply = Inr next"
  obtains status payload tokenData where
    "reply = TokenResponse status payload" "response_ok status"
    "JSON_parse rt payload = Some tokenData"
    "\<not> falsy_string (refresh_token current)"
    "\<not> falsy_string (string_of (property tokenData ''access_token''))"
    "access_token next = string_of (property tokenData ''access_token'')"
    "refresh_token next = (case string_of (property tokenData ''refresh_token'') of
                              Some r \<Rightarrow> Some r | None \<Rightarrow> refresh_token current)"
    "token_type next = (case string_of (property tokenData ''token_type'') of
                              Some t \<Rightarrow> Some t | None \<Rightarrow> token_type current)"
    "resource_url next = (case string_of (property tokenData ''resource_url'') of
                              Some u \<Rightarrow> Some u | None \<Rightarrow> resource_url current)"
    "expiry_date next \<noteq> None"
proof (cases reply)
  case FetchRejected
  with assms show ?thesis by (simp add: nextCredentials_def split: if_splits)
next
  case (TokenResponse status payload)
  show ?thesis
  proof (cases "JSON_parse rt payload")
    case None
    with assms TokenResponse show ?thesis by (simp add: nextCredentials_def split: if_splits)
  next
    case (Some tokenData)
    with assms TokenResponse have
      "response_ok status" "\<not> falsy_string (refresh_token current)"
      "\<not> falsy_string (string_of (property tokenData ''access_token''))"
      by (simp_all add: nextCredentials_def split: if_splits)
    moreover from this assms TokenResponse Some have
      "next = \<lparr> access_token = string_of (property tokenData ''access_token''),
                refresh_token = (case string_of (property tokenData ''refresh_token'') of
                              Some r \<Rightarrow> Some r | None \<Rightarrow> refresh_token current),
                token_type = (case string_of (property tokenData ''token_type'') of
                              Some t \<Rightarrow> Some t | None \<Rightarrow> token_type current),
                expiry_date = Some (now + (case number_of (property tokenData ''expires_in'') of
                         Some n \<Rightarrow> if n > 0 then n else 3600
                       | None \<Rightarrow> 3600) * 1000),
                resource_url = (case string_of (property tokenData ''resource_url'') of
                              Some u \<Rightarrow> Some u | None \<Rightarrow> resource_url current) \<rparr>"
      by (simp add: nextCredentials_def Let_def split: if_splits)
    ultimately show ?thesis using that [OF TokenResponse _ Some] by simp
  qed
qed


subsection \<open>A failed refresh does not touch the file system\<close>

text \<open>
  Claim C9. A refresh that fails, with whatever error (\<open>refresh_network_error\<close>,
  \<open>refresh_failed\<close>, \<open>refresh_parse_failed\<close>, \<open>refresh_missing_access_token\<close> or any
  other), makes no call to the file system: the disk after it is the disk before it. The
  credential file is replaced only when the exchange has yielded \<open>nextCredentials\<close>, and
  then holds its serialisation.
\<close>

theorem failed_refresh_keeps_file:
  "(\<forall>e. fst (refreshCredentials rt options env current d) = Inl e
         \<longrightarrow> snd (refreshCredentials rt options env current d) = d)
   \<and> (\<forall>next. fst (refreshCredentials rt options env current d) = Inr next
         \<longrightarrow> entries (snd (refreshCredentials rt options env current d)) (credentialsFile options)
             = Some (Content (JSON_stringify_indent2 next @ [CHR 0x0A])))"
  by (auto simp: refreshCredentials_def saveCredentials_def Let_def split: sum.splits)

theorem failed_refresh_keeps_file_witness:
  "fst (refreshCredentials example_runtime \<lparr> credentialsFile = ''/c.json'', tokenRefreshBufferMs = 30000 \<rparr>
        \<lparr> token_reply = TokenResponse 200 ''{}'', clock = 0, tmp_uuid = ''u'' \<rparr>
        \<lparr> access_token = None, refresh_token = Some ''r'', token_type = None,
          expiry_date = None, resource_url = None \<rparr>
        \<lparr> entries = (\<lambda>p. None), journal = [] \<rparr>)
     = Inl (OAuthCredentialsError ''refresh_missing_access_token'' None)
   \<and> snd (refreshCredentials example_runtime \<lparr> credentialsFile = ''/c.json'', tokenRefreshBufferMs = 30000 \<rparr>
        \<lparr> token_reply = TokenResponse 200 ''{}'', clock = 0, tmp_uuid = ''u'' \<rparr>
        \<lparr> access_token = None, refresh_token = Some ''r'', token_type = None,
          expiry_date = None, resource_url = None \<rparr>
        \<lparr> entries = (\<lambda>p. None), journal = [] \<rparr>)
     = \<lparr> entries = (\<lambda>p. None), journal = [] \<rparr>"
  using failed_refresh_keeps_file [of example_runtime
        "\<lparr> credentialsFile = ''/c.json'', tokenRefreshBufferMs = 30000 \<rparr>"
        "\<lparr> token_reply = TokenResponse 200 ''{}'', clock = 0, tmp_uuid = ''u'' \<rparr>"
        "\<lparr> access_token = None, refresh_token = Some ''r'', token_type = None,
          expiry_date = None, resource_url = None \<rparr>"
        "\<lparr> entries = (\<lambda>p. None), journal = [] \<rparr>"]
  by (simp add: refreshCredentials_def nextCredentials_def example_runtime_def
        example_JSON_parse_def response_ok_def)

subsection \<open>The shape of the written credential file\<close>

text \<open>
  Claim C4, as stated, fails: a refresh whose response carries only \<open>access_token\<close>, on a
  prior credential with only \<open>refresh_token\<close>, writes a file with three keys, not five.
  \<open>JSON.stringify\<close> leaves out the properties whose value is \<open>undefined\<close>.
\<close>

theorem written_keys_counterexample:
  \<open>fst (refreshCredentials example_runtime \<lparr> credentialsFile = ''/c.json'', tokenRefreshBufferMs = 30000 \<rparr>
        \<lparr> token_reply = TokenResponse 200 ''{"access_token":"a"}'', clock = 0, tmp_uuid = ''u'' \<rparr>
        \<lparr> access_token = None, refresh_token = Some ''r'', token_type = None,
          expiry_date = None, resource_url = None \<rparr>
        \<lparr> entries = (\<lambda>p. None), journal = [] \<rparr>)
     = Inr \<lparr> access_token = Some ''a'', refresh_token = Some ''r'', token_type = None,
          expiry_date = Some 3600000, resource_url = None \<rparr>
   \<and> entries (snd (refreshCredentials example_runtime \<lparr> credentialsFile = ''/c.json'', tokenRefreshBufferMs = 30000 \<rparr>
        \<lparr> token_reply = TokenResponse 200 ''{"access_token":"a"}'', clock = 0, tmp_uuid = ''u'' \<rparr>
        \<lparr> access_token = None, refresh_token = Some ''r'', token_type = None,
          expiry_date = None, resource_url = None \<rparr>
        \<lparr> entries = (\<lambda>p. None), journal = [] \<rparr>)) ''/c.json''
     = Some (Content ''{\<newline>  "access_token": "a",\<newline>  "refresh_token": "r",\<newline>  "expiry_date": 3600000\<newline>}\<newline>'')
   \<and> map fst (written_properties \<lparr> access_token = Some ''a'', refresh_token = Some ''r'', token_type = None,
          expiry_date = Some 3600000, resource_url = None \<rparr>)
     = [''access_token'', ''refresh_token'', ''expiry_date'']\<close>
  by (simp add: refreshCredentials_def nextCredentials_def example_runtime_def
        example_JSON_parse_def response_ok_def saveCredentials_def Let_def
        JSON_stringify_indent2_def written_properties_def json_quote_def json_escape_def
        eval_decimal)

text \<open>
  Claim C4, amended. The file written after a successful refresh has the keys
  \<open>access_token\<close>, \<open>refresh_token\<close> and \<open>expiry_date\<close>, and has \<open>token_type\<close>
  (\<open>resource_url\<close>) exactly when the response carries it as a string or the prior credential
  has it; no other key. The text is the object with indent 2, one property per line, and a
  final newline. It is written to a temporary file with mode \<open>0o600\<close> which is renamed
  over the credential file, after \<open>mkdir\<close> of the containing directory with
  \<open>recursive\<close> and mode \<open>0o700\<close>.
\<close>

theorem written_file_shape:
  assumes "nextCredentials rt now current (TokenResponse status payload) = Inr next"
      and "JSON_parse rt payload = Some tokenData"
  shows "map fst (written_properties next)
           = [''access_token'', ''refresh_token'']
             @ (if string_of (property tokenData ''token_type'') = None \<and> token_type current = None
                then [] else [''token_type''])
             @ (if string_of (property tokenData ''resource_url'') = None \<and> resource_url current = None
                then [] else [''resource_url''])
             @ [''expiry_date'']
       \<and> journal (saveCredentials rt options uuid next d)
           = journal d @
             [Mkdir (path_dirname rt (credentialsFile options)) True 448,
              WriteFile (credentialsFile options @ ''.tmp.'' @ uuid)
                (JSON_stringify_indent2 next @ [CHR 0x0A]) 384,
              Rename (credentialsFile options @ ''.tmp.'' @ uuid) (credentialsFile options)]
       \<and> entries (saveCredentials rt options uuid next d) (credentialsFile options)
           = Some (Content (JSON_stringify_indent2 next @ [CHR 0x0A]))
       \<and> JSON_stringify_indent2 next
           = [CHR ''{'', CHR 0x0A]
             @ join_lines (map (\<lambda>(k, v). ''  '' @ json_quote k @ '': '' @ v) (written_properties next))
             @ [CHR 0x0A, CHR ''}'']"
proof -
  from assms(1) obtain status' payload' tokenData' where
      "TokenResponse status payload = TokenResponse status' payload'"
      "JSON_parse rt payload' = Some tokenData'"
      "\<not> falsy_string (refresh_token current)"
      "\<not> falsy_string (string_of (property tokenData' ''access_token''))"
      "access_token next = string_of (property tokenData' ''access_token'')"
      "refresh_token next = (case string_of (property tokenData' ''refresh_token'') of
                                    Some r \<Rightarrow> Some r | None \<Rightarrow> refresh_token current)"
      "token_type next = (case string_of (property tokenData' ''token_type'') of
                                    Some t \<Rightarrow> Some t | None \<Rightarrow> token_type current)"
      "resource_url next = (case string_of (property tokenData' ''resource_url'') of
                                    Some u \<Rightarrow> Some u | None \<Rightarrow> resource_url current)"
      "expiry_date next \<noteq> None"
    by (rule nextCredentials_InrD)
  with assms(2) have n: "\<not> falsy_string (refresh_token current)"
      "\<not> falsy_string (string_of (property tokenData ''access_token''))"
      "access_token next = string_of (property tokenData ''access_token'')"
      "refresh_token next = (case string_of (property tokenData ''refresh_token'') of
                                    Some r \<Rightarrow> Some r | None \<Rightarrow> refresh_token current)"
      "token_type next = (case string_of (property tokenData ''token_type'') of
                                    Some t \<Rightarrow> Some t | None \<Rightarrow> token_type current)"
      "resource_url next = (case string_of (property tokenData ''resource_url'') of
                                    Some u \<Rightarrow> Some u | None \<Rightarrow> resource_url current)"
      "expiry_date next \<noteq> None"
    by simp_all
  have a: "access_token next \<noteq> None"
    using n(2,3) by (cases "string_of (property tokenData ''access_token'')") auto
  have r: "refresh_token next \<noteq> None"
    using n(1,4)
    by (cases "refresh_token current"; cases "string_of (property tokenData ''refresh_token'')") auto
  note ar = a r
  have keys: "map fst (written_properties next)
           = [''access_token'', ''refresh_token'']
             @ (if string_of (property tokenData ''token_type'') = None \<and> token_type current = None
                then [] else [''token_type''])
             @ (if string_of (property tokenData ''resource_url'') = None \<and> resource_url current = None
                then [] else [''resource_url''])
             @ [''expiry_date'']"
    using ar n(5,6,7) by (auto simp: written_properties_def split: option.splits)
  have nonempty: "written_properties next \<noteq> []"
    using ar by (auto simp: written_properties_def)
  have rendered: "JSON_stringify_indent2 next
           = [CHR ''{'', CHR 0x0A]
             @ join_lines (map (\<lambda>(k, v). ''  '' @ json_quote k @ '': '' @ v) (written_properties next))
             @ [CHR 0x0A, CHR ''}'']"
    using nonempty by (simp add: JSON_stringify_indent2_def split: list.splits)
  have j: "journal (saveCredentials rt options uuid next d)
           = journal d @
             [Mkdir (path_dirname rt (credentialsFile options)) True 448,
              WriteFile (credentialsFile options @ ''.tmp.'' @ uuid)
                (JSON_stringify_indent2 next @ [CHR 0x0A]) 384,
              Rename (credentialsFile options @ ''.tmp.'' @ uuid) (credentialsFile options)]"
    by (simp add: saveCredentials_def Let_def)
  have f: "entries (saveCredentials rt options uuid next d) (credentialsFile options)
           = Some (Content (JSON_stringify_indent2 next @ [CHR 0x0A]))"
    by (simp add: saveCredentials_def Let_def)
  show ?thesis
    by (intro conjI) (rule keys, rule j, rule f, rule rendered)
qed



theorem written_file_shape_witness:
  \<open>nextCredentials example_runtime 0
       \<lparr> access_token = None, refresh_token = Some ''r'', token_type = Some ''Bearer'',
         expiry_date = None, resource_url = Some ''portal.qwen.ai'' \<rparr>
       (TokenResponse 200 ''{"access_token":"a"}'')
     = Inr \<lparr> access_token = Some ''a'', refresh_token = Some ''r'', token_type = Some ''Bearer'',
         expiry_date = Some 3600000, resource_url = Some ''portal.qwen.ai'' \<rparr>
   \<and> JSON_parse example_runtime ''{"access_token":"a"}''
     = Some (JObject [(''access_token'', JString ''a'')])
   \<and> map fst (written_properties \<lparr> access_token = Some ''a'', refresh_token = Some ''r'',
         token_type = Some ''Bearer'', expiry_date = Some 3600000,
         resource_url = Some ''portal.qwen.ai'' \<rparr>)
     = [''access_token'', ''refresh_token'', ''token_type'', ''resource_url'', ''expiry_date'']\<close>
proof -
  have n: \<open>nextCredentials example_runtime 0
       \<lparr> access_token = None, refresh_token = Some ''r'', token_type = Some ''Bearer'',
         expiry_date = None, resource_url = Some ''portal.qwen.ai'' \<rparr>
       (TokenResponse 200 ''{"access_token":"a"}'')
     = Inr \<lparr> access_token = Some ''a'', refresh_token = Some ''r'', token_type = Some ''Bearer'',
         expiry_date = Some 3600000, resource_url = Some ''portal.qwen.ai'' \<rparr>\<close>
    by (simp add: nextCredentials_def example_runtime_def example_JSON_parse_def response_ok_def)
  have p: \<open>JSON_parse example_runtime ''{"access_token":"a"}''
     = Some (JObject [(''access_token'', JString ''a'')])\<close>
    by (simp add: example_runtime_def example_JSON_parse_def)
  from written_file_shape [OF n p] n p show ?thesis by simp
qed

subsection \<open>The fast path of a valid token\<close>

lemma getValidCredentials_refreshes:
  assumes r: "readCredentials rt options (entries (store_disk s)) = Inr current"
      and inv: "forceRefresh \<or> \<not> isTokenValid options now current"
      and rt: "\<not> falsy_string (refresh_token current)"
  shows "getValidCredentials rt options now env forceRefresh s
           = (case nextCredentials rt (clock env) current (token_reply env) of
                Inl e \<Rightarrow> (Inl e, \<lparr> store_disk = store_disk s, token_calls = token_calls s + 1 \<rparr>)
              | Inr nxt \<Rightarrow>
                  (Inr nxt,
                   \<lparr> store_disk = saveCredentials rt options (tmp_uuid env) nxt (store_disk s),
                     token_calls = token_calls s + 1 \<rparr>))"
  using assms
  by (auto simp: getValidCredentials_def after_read_def refreshCredentials_def split: sum.splits)

lemma nextCredentials_success:
  assumes "\<not> falsy_string (refresh_token current)" and "response_ok status"
      and "JSON_parse rt payload = Some tokenData"
      and "string_of (property tokenData ''access_token'') = Some a" and "a \<noteq> []"
  shows "nextCredentials rt clk current (TokenResponse status payload)
           = Inr \<lparr> access_token = Some a,
                   refresh_token =
                     (case string_of (property tokenData ''refresh_token'') of
                        Some r \<Rightarrow> Some r | None \<Rightarrow> refresh_token current),
                   token_type =
                     (case string_of (property tokenData ''token_type'') of
                        Some t \<Rightarrow> Some t | None \<Rightarrow> token_type current),
                   expiry_date =
                     Some (clk + (case number_of (property tokenData ''expires_in'') of
                                    Some n \<Rightarrow> if n > 0 then n else 3600
                                  | None \<Rightarrow> 3600) * 1000),
                   resource_url =
                     (case string_of (property tokenData ''resource_url'') of
                        Some u \<Rightarrow> Some u | None \<Rightarrow> resource_url current) \<rparr>"
proof -
  from assms(4) have "tokenData \<noteq> JNull" by (cases tokenData) simp_all
  with assms show ?thesis by (simp add: nextCredentials_def Let_def)
qed

text \<open>
  Claim C3. Let the credential file parse to \<open>current\<close>, no refresh be pending, the clock be
  non-negative and the refresh buffer non-negative (as \<open>loadConfig\<close> enforces). If
  \<open>access_token\<close> is present (a non-empty string, which is what the code's tests read as
  present) and \<open>now < expiry_date - tokenRefreshBufferMs\<close>, then \<open>getValidCredentials(false)\<close>
  returns \<open>current\<close> and leaves the store as it is: no request to the token endpoint, no
  write. If \<open>access_token\<close> or \<open>expiry_date\<close> is absent, or the expiry is within the buffer,
  the stored credential is not what the call returns: when \<open>refresh_token\<close> is absent it throws
  \<open>missing_refresh_token\<close> with the store untouched; otherwise it sends exactly one request to
  the token endpoint and its outcome is that of the exchange. A rejected fetch gives
  \<open>refresh_network_error\<close>, a status outside 200..299 gives \<open>refresh_failed\<close> with that
  status, both without a write; a 2xx reply whose body parses to an object with a non-empty
  string \<open>access_token\<close> gives a credential carrying that token, expiring \<open>expires_in\<close> seconds
  (3600 by default) after the clock of the exchange, and the credential file then holds the
  serialisation of the credential returned.
\<close>

theorem valid_token_fast_path:
  assumes "readCredentials rt options (entries (store_disk s)) = Inr current"
      and "0 \<le> now" and "0 \<le> tokenRefreshBufferMs options"
  shows "(\<forall>e. \<not> falsy_string (access_token current) \<and> expiry_date current = Some e
              \<and> now < e - tokenRefreshBufferMs options
            \<longrightarrow> getValidCredentials rt options now env False s = (Inr current, s))
       \<and> (falsy_string (access_token current) \<or> expiry_date current = None
            \<or> (\<exists>e. expiry_date current = Some e \<and> \<not> now < e - tokenRefreshBufferMs options)
            \<longrightarrow> (falsy_string (refresh_token current)
                   \<longrightarrow> getValidCredentials rt options now env False s
                         = (Inl (OAuthCredentialsError ''missing_refresh_token'' None), s))
                \<and> (\<not> falsy_string (refresh_token current)
                   \<longrightarrow> token_calls (snd (getValidCredentials rt options now env False s))
                         = token_calls s + 1
                     \<and> (token_reply env = FetchRejected
                          \<longrightarrow> getValidCredentials rt options now env False s
                                = (Inl (OAuthCredentialsError ''refresh_network_error'' None),
                                   \<lparr> store_disk = store_disk s, token_calls = token_calls s + 1 \<rparr>))
                     \<and> (\<forall>status payload.
                            token_reply env = TokenResponse status payload \<and> \<not> response_ok status
                          \<longrightarrow> getValidCredentials rt options now env False s
                                = (Inl (OAuthCredentialsError ''refresh_failed'' (Some status)),
                                   \<lparr> store_disk = store_disk s, token_calls = token_calls s + 1 \<rparr>))
                     \<and> (\<forall>status payload tokenData a.
                            token_reply env = TokenResponse status payload \<and> response_ok status
                            \<and> JSON_parse rt payload = Some tokenData
                            \<and> string_of (property tokenData ''access_token'') = Some a \<and> a \<noteq> []
                          \<longrightarrow> (\<exists>refreshed.
                                 fst (getValidCredentials rt options now env False s) = Inr refreshed
                               \<and> access_token refreshed = Some a
                               \<and> expiry_date refreshed
                                   = Some (clock env
                                       + (case number_of (property tokenData ''expires_in'') of
                                            Some n \<Rightarrow> if n > 0 then n else 3600
                                          | None \<Rightarrow> 3600) * 1000)
                               \<and> entries (store_disk (snd (getValidCredentials rt options now env False s)))
                                     (credentialsFile options)
                                   = Some (Content (JSON_stringify_indent2 refreshed @ [CHR 0x0A]))))))"
proof -
  have fast: "getValidCredentials rt options now env False s = (Inr current, s)"
    if "\<not> falsy_string (access_token current)" "expiry_date current = Some e"
       "now < e - tokenRefreshBufferMs options" for e
    using that assms
    by (auto simp: getValidCredentials_def after_read_def isTokenValid_def split: option.splits)
  have stale: "\<not> isTokenValid options now current"
    if "falsy_string (access_token current) \<or> expiry_date current = None
            \<or> (\<exists>e. expiry_date current = Some e \<and> \<not> now < e - tokenRefreshBufferMs options)"
    using that by (auto simp: isTokenValid_def split: option.splits)
  have missing: "getValidCredentials rt options now env False s
                         = (Inl (OAuthCredentialsError ''missing_refresh_token'' None), s)"
    if "\<not> isTokenValid options now current" "falsy_string (refresh_token current)"
    using that assms(1) by (simp add: getValidCredentials_def after_read_def)
  have refresh: "getValidCredentials rt options now env False s
           = (case nextCredentials rt (clock env) current (token_reply env) of
                Inl e \<Rightarrow> (Inl e, \<lparr> store_disk = store_disk s, token_calls = token_calls s + 1 \<rparr>)
              | Inr nxt \<Rightarrow>
                  (Inr nxt,
                   \<lparr> store_disk = saveCredentials rt options (tmp_uuid env) nxt (store_disk s),
                     token_calls = token_calls s + 1 \<rparr>))"
    if "\<not> isTokenValid options now current" "\<not> falsy_string (refresh_token current)"
    using getValidCredentials_refreshes [OF assms(1) _ that(2)] that(1) by simp
  have counted: "token_calls (snd (getValidCredentials rt options now env False s)) = token_calls s + 1"
    if "\<not> isTokenValid options now current" "\<not> falsy_string (refresh_token current)"
    using refresh [OF that] by (simp split: sum.splits)
  have rejected: "getValidCredentials rt options now env False s
                                = (Inl (OAuthCredentialsError ''refresh_network_error'' None),
                                   \<lparr> store_disk = store_disk s, token_calls = token_calls s + 1 \<rparr>)"
    if "\<not> isTokenValid options now current" "\<not> falsy_string (refresh_token current)"
       "token_reply env = FetchRejected"
    using refresh [OF that(1,2)] that(2,3) by (simp add: nextCredentials_def)
  have failed: "getValidCredentials rt options now env False s
                                = (Inl (OAuthCredentialsError ''refresh_failed'' (Some status)),
                                   \<lparr> store_disk = store_disk s, token_calls = token_calls s + 1 \<rparr>)"
    if "\<not> isTokenValid options now current" "\<not> falsy_string (refresh_token current)"
       "token_reply env = TokenResponse status payload" "\<not> response_ok status" for status payload
    using refresh [OF that(1,2)] that(2,3,4) by (simp add: nextCredentials_def)
  have renewed: "\<exists>refreshed.
                                 fst (getValidCredentials rt options now env False s) = Inr refreshed
                               \<and> access_token refreshed = Some a
                               \<and> expiry_date refreshed
                                   = Some (clock env
                                       + (case number_of (property tokenData ''expires_in'') of
                                            Some n \<Rightarrow> if n > 0 then n else 3600
                                          | None \<Rightarrow> 3600) * 1000)
                               \<and> entries (store_disk (snd (getValidCredentials rt options now env False s)))
                                     (credentialsFile options)
                                   = Some (Content (JSON_stringify_indent2 refreshed @ [CHR 0x0A]))"
    if "\<not> isTokenValid options now current" "\<not> falsy_string (refresh_token current)"
       "token_reply env = TokenResponse status payload" "response_ok status"
       "JSON_parse rt payload = Some tokenData"
       "string_of (property tokenData ''access_token'') = Some a" "a \<noteq> []"
    for status payload tokenData a
    using refresh [OF that(1,2)] nextCredentials_success [OF that(2,4,5,6,7), of "clock env"] that(3)
    by (simp add: saveCredentials_def Let_def)
  show ?thesis
  proof (intro conjI allI impI)
    fix e
    assume "\<not> falsy_string (access_token current) \<and> expiry_date current = Some e
              \<and> now < e - tokenRefreshBufferMs options"
    then show "getValidCredentials rt options now env False s = (Inr current, s)"
      using fast by blast
  next
    assume a: "falsy_string (access_token current) \<or> expiry_date current = None
            \<or> (\<exists>e. expiry_date current = Some e \<and> \<not> now < e - tokenRefreshBufferMs options)"
       and b: "falsy_string (refresh_token current)"
    from missing [OF stale [OF a] b]
    show "getValidCredentials rt options now env False s
                         = (Inl (OAuthCredentialsError ''missing_refresh_token'' None), s)" .
  next
    assume a: "falsy_string (access_token current) \<or> expiry_date current = None
            \<or> (\<exists>e. expiry_date current = Some e \<and> \<not> now < e - tokenRefreshBufferMs options)"
       and b: "\<not> falsy_string (refresh_token current)"
    from counted [OF stale [OF a] b]
    show "token_calls (snd (getValidCredentials rt options now env False s)) = token_calls s + 1" .
  next
    assume a: "falsy_string (access_token current) \<or> expiry_date current = None
            \<or> (\<exists>e. expiry_date current = Some e \<and> \<not> now < e - tokenRefreshBufferMs options)"
       and b: "\<not> falsy_string (refresh_token current)"
       and c: "token_reply env = FetchRejected"
    from rejected [OF stale [OF a] b c]
    show "getValidCredentials rt options now env False s
                                = (Inl (OAuthCredentialsError ''refresh_network_error'' None),
                                   \<lparr> store_disk = store_disk s, token_calls = token_calls s + 1 \<rparr>)" .
  next
    fix status payload
    assume a: "falsy_string (access_token current) \<or> expiry_date current = None
            \<or> (\<exists>e. expiry_date current = Some e \<and> \<not> now < e - tokenRefreshBufferMs options)"
       and b: "\<not> falsy_string (refresh_token current)"
       and c: "token_reply env = TokenResponse status payload \<and> \<not> response_ok status"
    from c failed [OF stale [OF a] b]
    show "getValidCredentials rt options now env False s
                                = (Inl (OAuthCredentialsError ''refresh_failed'' (Some status)),
                                   \<lparr> store_disk = store_disk s, token_calls = token_calls s + 1 \<rparr>)"
      by blast
  next
    fix status payload tokenData a
    assume a: "falsy_string (access_token current) \<or> expiry_date current = None
            \<or> (\<exists>e. expiry_date current = Some e \<and> \<not> now < e - tokenRefreshBufferMs options)"
       and b: "\<not> falsy_string (refresh_token current)"
       and c: "token_reply env = TokenResponse status payload \<and> response_ok status
                            \<and> JSON_parse rt payload = Some tokenData
                            \<and> string_of (property tokenData ''access_token'') = Some a \<and> a \<noteq> []"
    from c renewed [OF stale [OF a] b, of status payload tokenData a]
    show "\<exists>refreshed.
                                 fst (getValidCredentials rt options now env False s) = Inr refreshed
                               \<and> access_token refreshed = Some a
                               \<and> expiry_date refreshed
                                   = Some (clock env
                                       + (case number_of (property tokenData ''expires_in'') of
                                            Some n \<Rightarrow> if n > 0 then n else 3600
                                          | None \<Rightarrow> 3600) * 1000)
                               \<and> entries (store_disk (snd (getValidCredentials rt options now env False s)))
                                     (credentialsFile options)
                                   = Some (Content (JSON_stringify_indent2 refreshed @ [CHR 0x0A]))"
      by blast
  qed
qed

theorem valid_token_fast_path_witness:
  \<open>readCredentials example_runtime \<lparr> credentialsFile = ''/c.json'', tokenRefreshBufferMs = 30000 \<rparr>
       (entries (store_disk \<lparr> store_disk = \<lparr> entries = [''/c.json'' \<mapsto> Content
           ''{"access_token":"t","refresh_token":"r","expiry_date":100000}''], journal = [] \<rparr>,
         token_calls = 0 \<rparr>))
     = Inr \<lparr> access_token = Some ''t'', refresh_token = Some ''r'', token_type = None,
         expiry_date = Some 100000, resource_url = None \<rparr>
   \<and> getValidCredentials example_runtime
       \<lparr> credentialsFile = ''/c.json'', tokenRefreshBufferMs = 30000 \<rparr> 0
       \<lparr> token_reply = FetchRejected, clock = 0, tmp_uuid = ''u'' \<rparr> False
       \<lparr> store_disk = \<lparr> entries = [''/c.json'' \<mapsto> Content
           ''{"access_token":"t","refresh_token":"r","expiry_date":100000}''], journal = [] \<rparr>,
         token_calls = 0 \<rparr>
     = (Inr \<lparr> access_token = Some ''t'', refresh_token = Some ''r'', token_type = None,
         expiry_date = Some 100000, resource_url = None \<rparr>,
        \<lparr> store_disk = \<lparr> entries = [''/c.json'' \<mapsto> Content
           ''{"access_token":"t","refresh_token":"r","expiry_date":100000}''], journal = [] \<rparr>,
         token_calls = 0 \<rparr>)
   \<and> token_calls (snd (getValidCredentials example_runtime
       \<lparr> credentialsFile = ''/c.json'', tokenRefreshBufferMs = 30000 \<rparr> 70000
       \<lparr> token_reply = TokenResponse 200 ''{"access_token":"a"}'', clock = 70000, tmp_uuid = ''u'' \<rparr>
       False
       \<lparr> store_disk = \<lparr> entries = [''/c.json'' \<mapsto> Content
           ''{"access_token":"t","refresh_token":"r","expiry_date":100000}''], journal = [] \<rparr>,
         token_calls = 0 \<rparr>)) = 1
   \<and> (\<exists>refreshed.
         fst (getValidCredentials example_runtime
           \<lparr> credentialsFile = ''/c.json'', tokenRefreshBufferMs = 30000 \<rparr> 70000
           \<lparr> token_reply = TokenResponse 200 ''{"access_token":"a"}'', clock = 70000, tmp_uuid = ''u'' \<rparr>
           False
           \<lparr> store_disk = \<lparr> entries = [''/c.json'' \<mapsto> Content
               ''{"access_token":"t","refresh_token":"r","expiry_date":100000}''], journal = [] \<rparr>,
             token_calls = 0 \<rparr>) = Inr refreshed
       \<and> access_token refreshed = Some ''a'' \<and> expiry_date refreshed = Some 3670000)\<close>
proof -
  have r: \<open>readCredentials example_runtime \<lparr> credentialsFile = ''/c.json'', tokenRefreshBufferMs = 30000 \<rparr>
       (entries (store_disk \<lparr> store_disk = \<lparr> entries = [''/c.json'' \<mapsto> Content
           ''{"access_token":"t","refresh_token":"r","expiry_date":100000}''], journal = [] \<rparr>,
         token_calls = 0 \<rparr>))
     = Inr \<lparr> access_token = Some ''t'', refresh_token = Some ''r'', token_type = None,
         expiry_date = Some 100000, resource_url = None \<rparr>\<close>
    by (simp add: readCredentials_def parseCredentials_def example_runtime_fields
          example_JSON_parse_def)
  have p: \<open>JSON_parse example_runtime ''{"access_token":"a"}''
             = Some (JObject [(''access_token'', JString ''a'')])\<close>
    by (simp add: example_runtime_fields example_JSON_parse_def)
  have fresh: \<open>getValidCredentials example_runtime
       \<lparr> credentialsFile = ''/c.json'', tokenRefreshBufferMs = 30000 \<rparr> 0
       \<lparr> token_reply = FetchRejected, clock = 0, tmp_uuid = ''u'' \<rparr> False
       \<lparr> store_disk = \<lparr> entries = [''/c.json'' \<mapsto> Content
           ''{"access_token":"t","refresh_token":"r","expiry_date":100000}''], journal = [] \<rparr>,
         token_calls = 0 \<rparr>
     = (Inr \<lparr> access_token = Some ''t'', refresh_token = Some ''r'', token_type = None,
         expiry_date = Some 100000, resource_url = None \<rparr>,
        \<lparr> store_disk = \<lparr> entries = [''/c.json'' \<mapsto> Content
           ''{"access_token":"t","refresh_token":"r","expiry_date":100000}''], journal = [] \<rparr>,
         token_calls = 0 \<rparr>)\<close>
    using valid_token_fast_path [OF r, of 0 "\<lparr> token_reply = FetchRejected, clock = 0, tmp_uuid = ''u'' \<rparr>"]
    by simp
  have stale: \<open>token_calls (snd (getValidCredentials example_runtime
       \<lparr> credentialsFile = ''/c.json'', tokenRefreshBufferMs = 30000 \<rparr> 70000
       \<lparr> token_reply = TokenResponse 200 ''{"access_token":"a"}'', clock = 70000, tmp_uuid = ''u'' \<rparr>
       False
       \<lparr> store_disk = \<lparr> entries = [''/c.json'' \<mapsto> Content
           ''{"access_token":"t","refresh_token":"r","expiry_date":100000}''], journal = [] \<rparr>,
         token_calls = 0 \<rparr>)) = 1
   \<and> (\<exists>refreshed.
         fst (getValidCredentials example_runtime
           \<lparr> credentialsFile = ''/c.json'', tokenRefreshBufferMs = 30000 \<rparr> 70000
           \<lparr> token_reply = TokenResponse 200 ''{"access_token":"a"}'', clock = 70000, tmp_uuid = ''u'' \<rparr>
           False
           \<lparr> store_disk = \<lparr> entries = [''/c.json'' \<mapsto> Content
               ''{"access_token":"t","refresh_token":"r","expiry_date":100000}''], journal = [] \<rparr>,
             token_calls = 0 \<rparr>) = Inr refreshed
       \<and> access_token refreshed = Some ''a'' \<and> expiry_date refreshed = Some 3670000)\<close>
    using valid_token_fast_path [OF r, of 70000
            "\<lparr> token_reply = TokenResponse 200 ''{\"access_token\":\"a\"}'', clock = 70000, tmp_uuid = ''u'' \<rparr>"]
          p
    by (simp add: response_ok_def) blast
  from r fresh stale show ?thesis by (intro conjI) simp_all
qed

subsection \<open>The cap on the request body\<close>

lemma read_chunks_total:
  "totalSize \<le> MAX_REQUEST_BODY_BYTES \<Longrightarrow>
   fst (read_chunks chunks totalSize stream)
     = (if totalSize + sum_list (map length stream) \<le> MAX_REQUEST_BODY_BYTES
        then Inr (chunks @ stream)
        else Inl (HttpRequestError 413 ''request_body_too_large''))"
  by (induction stream arbitrary: chunks totalSize) (auto simp: add.assoc)

lemma mayHaveBody_GET_HEAD: "\<not> mayHaveBody ''GET''" "\<not> mayHaveBody ''HEAD''" "mayHaveBody ''POST''"
  by (simp_all add: mayHaveBody_def toUpperCase_def ascii_upper_def)

text \<open>
  Claim C7. For a method that may have a body, a body of at most
  \<open>MAX_REQUEST_BODY_BYTES\<close> = 20 * 1024 * 1024 bytes is read in full; a body of more bytes
  fails with \<open>HttpRequestError(413, request_body_too_large)\<close>, and the listener then sends
  the 413 envelope with the forwarder untouched: no credential is fetched and no outbound
  call is made. For \<open>GET\<close> and \<open>HEAD\<close> (in any letter case, and for a request without a
  method) no chunk is taken from the stream.
\<close>

theorem request_body_cap:
  "(mayHaveBody m \<and> sum_list (map length stream) \<le> MAX_REQUEST_BODY_BYTES
      \<longrightarrow> fst (readRequestBody (Some m) stream)
            = Inr (if stream = [] then None else Some (concat stream)))
   \<and> (mayHaveBody m \<and> sum_list (map length stream) > MAX_REQUEST_BODY_BYTES
      \<longrightarrow> fst (readRequestBody (Some m) stream)
            = Inl (HttpRequestError 413 ''request_body_too_large'')
        \<and> listener rt config options first retry
             \<lparr> req_method = Some m, req_path = p, req_search = q, req_stream = stream \<rparr> fw
            = (Failed \<lparr> env_status = 413, env_type = ''invalid_request_error'',
                 env_code = ''request_body_too_large'' \<rparr>, fw))
   \<and> (\<not> mayHaveBody m \<longrightarrow> readRequestBody (Some m) stream = (Inr None, stream))
   \<and> \<not> mayHaveBody ''GET'' \<and> \<not> mayHaveBody ''HEAD''
   \<and> readRequestBody None stream = (Inr None, stream)"
proof -
  have ok: "fst (readRequestBody (Some m) stream)
            = Inr (if stream = [] then None else Some (concat stream))"
    if "mayHaveBody m" "sum_list (map length stream) \<le> MAX_REQUEST_BODY_BYTES"
    using that read_chunks_total [of 0 "[]" stream]
    by (cases "read_chunks [] 0 stream") (auto simp: readRequestBody_def)
  have big: "fst (readRequestBody (Some m) stream)
            = Inl (HttpRequestError 413 ''request_body_too_large'')"
    if "mayHaveBody m" "sum_list (map length stream) > MAX_REQUEST_BODY_BYTES"
    using that read_chunks_total [of 0 "[]" stream]
    by (cases "read_chunks [] 0 stream") (auto simp: readRequestBody_def)
  have sent: "listener rt config options first retry
             \<lparr> req_method = Some m, req_path = p, req_search = q, req_stream = stream \<rparr> fw
            = (Failed \<lparr> env_status = 413, env_type = ''invalid_request_error'',
                 env_code = ''request_body_too_large'' \<rparr>, fw)"
    if "mayHaveBody m" "sum_list (map length stream) > MAX_REQUEST_BODY_BYTES"
    using big [OF that] by (simp add: listener_def handleRequestError_def)
  have none: "readRequestBody (Some m) stream = (Inr None, stream)" if "\<not> mayHaveBody m"
    using that by (simp add: readRequestBody_def)
  have undefined_method: "readRequestBody None stream = (Inr None, stream)"
    using mayHaveBody_GET_HEAD by (simp add: readRequestBody_def)
  from ok big sent none undefined_method mayHaveBody_GET_HEAD(1,2) show ?thesis
    by (intro conjI impI) simp_all
qed

theorem request_body_cap_witness:
  "fst (readRequestBody (Some ''POST'') [replicate MAX_REQUEST_BODY_BYTES (CHR ''x'')])
     = Inr (Some (concat [replicate MAX_REQUEST_BODY_BYTES (CHR ''x'')]))
   \<and> fst (readRequestBody (Some ''POST'') [replicate MAX_REQUEST_BODY_BYTES (CHR ''x''), ''y''])
     = Inl (HttpRequestError 413 ''request_body_too_large'')
   \<and> readRequestBody (Some ''GET'') [''abc''] = (Inr None, [''abc''])"
  using request_body_cap [of "''POST''" "[replicate MAX_REQUEST_BODY_BYTES (CHR ''x'')]"]
        request_body_cap [of "''POST''" "[replicate MAX_REQUEST_BODY_BYTES (CHR ''x''), ''y'']"]
        request_body_cap [of "''GET''" "[''abc'']"]
        mayHaveBody_GET_HEAD
  by simp

subsection \<open>Retry on 401, once\<close>























subsection \<open>The URL parser on its own output\<close>

paragraph \<open>Percent-encoding\<close>

lemma hex_digit_upper_mem: "hex_digit_upper d \<in> set ''0123456789ABCDEF''"
  unfolding hex_digit_upper_def by (rule nth_mem) simp

lemma utf8_percent_encode_chars:
  "x \<in> set (utf8_percent_encode c) \<Longrightarrow> x \<in> set ''%0123456789ABCDEF''"
  using hex_digit_upper_mem
  by (auto simp: utf8_percent_encode_def percent_byte_def Let_def split: if_splits)

lemma octet_chars_userinfo: "x \<in> set ''%0123456789ABCDEF'' \<Longrightarrow> \<not> userinfo_percent_encode_set x"
  by (auto simp: userinfo_percent_encode_set_def path_percent_encode_set_def
        query_percent_encode_set_def c0_control_percent_encode_set_def)

lemma path_set_userinfo: "path_percent_encode_set c \<Longrightarrow> userinfo_percent_encode_set c"
  by (simp add: userinfo_percent_encode_set_def)

lemma octet_chars_path: "x \<in> set ''%0123456789ABCDEF'' \<Longrightarrow> \<not> path_percent_encode_set x"
  using octet_chars_userinfo path_set_userinfo by blast

lemma octet_chars_no_slash: "x \<in> set ''%0123456789ABCDEF'' \<Longrightarrow> \<not> is_slash x"
  by (auto simp: is_slash_def)

lemma percent_encode_Nil [simp]: "percent_encode S [] = []"
  by (simp add: percent_encode_def)

lemma percent_encode_Cons:
  "percent_encode S (c # cs) = (if S c then utf8_percent_encode c else [c]) @ percent_encode S cs"
  by (simp add: percent_encode_def)

lemma percent_encode_safe:
  assumes "\<And>x. x \<in> set ''%0123456789ABCDEF'' \<Longrightarrow> \<not> S x"
  shows "list_all (\<lambda>c. \<not> S c) (percent_encode S s)"
proof (induction s)
  case Nil
  show ?case by simp
next
  case (Cons c cs)
  have "list_all (\<lambda>c. \<not> S c) (utf8_percent_encode c)"
    using assms utf8_percent_encode_chars unfolding list_all_iff by blast
  with Cons show ?case by (simp add: percent_encode_Cons)
qed

lemma percent_encode_id: "list_all (\<lambda>c. \<not> S c) s \<Longrightarrow> percent_encode S s = s"
  by (induction s) (simp_all add: percent_encode_Cons)

lemma percent_encode_no_slash:
  "list_all (\<lambda>c. \<not> is_slash c) s \<Longrightarrow> list_all (\<lambda>c. \<not> is_slash c) (percent_encode S s)"
proof (induction s)
  case Nil
  show ?case by simp
next
  case (Cons c cs)
  have "list_all (\<lambda>c. \<not> is_slash c) (utf8_percent_encode c)"
    using octet_chars_no_slash utf8_percent_encode_chars unfolding list_all_iff by blast
  with Cons show ?case by (simp add: percent_encode_Cons)
qed

paragraph \<open>Splitting at slashes and joining again\<close>

lemma split_slash_plain:
  "list_all (\<lambda>c. \<not> is_slash c) seg \<Longrightarrow> split_slash buffer seg = [buffer @ seg]"
  by (induction seg arbitrary: buffer) simp_all

lemma split_slash_plain_slash:
  "list_all (\<lambda>c. \<not> is_slash c) seg
     \<Longrightarrow> split_slash buffer (seg @ CHR ''/'' # rest) = (buffer @ seg) # split_slash [] rest"
  by (induction seg arbitrary: buffer) (simp_all add: is_slash_def)

lemma split_slash_no_slash:
  "list_all (\<lambda>c. \<not> is_slash c) buffer
     \<Longrightarrow> list_all (list_all (\<lambda>c. \<not> is_slash c)) (split_slash buffer s)"
  by (induction s arbitrary: buffer) simp_all

lemma serialize_path_Nil [simp]: "serialize_path [] = []"
  by (simp add: serialize_path_def)

lemma serialize_path_Cons [simp]:
  "serialize_path (seg # segs) = CHR ''/'' # seg @ serialize_path segs"
  by (simp add: serialize_path_def)

lemma serialize_path_append [simp]:
  "serialize_path (xs @ ys) = serialize_path xs @ serialize_path ys"
  by (simp add: serialize_path_def)

lemma split_serialize:
  "list_all (list_all (\<lambda>c. \<not> is_slash c)) segs \<Longrightarrow> segs \<noteq> []
     \<Longrightarrow> split_slash [] (tl (serialize_path segs)) = segs"
proof (induction segs)
  case Nil
  then show ?case by simp
next
  case (Cons seg segs)
  show ?case
  proof (cases segs)
    case Nil
    with Cons.prems show ?thesis by (simp add: split_slash_plain)
  next
    case (Cons s ss)
    with Cons.IH Cons.prems have "split_slash [] (tl (serialize_path segs)) = segs" by simp
    with Cons Cons.prems show ?thesis by (simp add: split_slash_plain_slash)
  qed
qed

lemma serialize_split:
  "CHR 0x5C \<notin> set s \<Longrightarrow> serialize_path (split_slash buffer s) = CHR ''/'' # buffer @ s"
  by (induction s arbitrary: buffer) (auto simp: is_slash_def)

paragraph \<open>The path state on plain segments\<close>

lemma path_state_plain:
  "list_all plain_segment bs \<Longrightarrow> path_state path bs = path @ bs"
proof (induction bs arbitrary: path)
  case Nil
  show ?case by simp
next
  case (Cons b bs)
  then have "percent_encode path_percent_encode_set b = b" "\<not> is_single_dot b" "\<not> is_double_dot b"
    by (simp_all add: plain_segment_def percent_encode_id)
  with Cons show ?case by simp
qed

lemma list_all_butlast: "list_all P xs \<Longrightarrow> list_all P (butlast xs)"
  unfolding list_all_iff by (auto dest: in_set_butlastD)

lemma plain_segment_Nil [simp]: "plain_segment []"
  by (simp add: plain_segment_def is_single_dot_def is_double_dot_def)

lemma path_state_segments:
  assumes "list_all (\<lambda>s. plain_segment s \<and> list_all (\<lambda>c. \<not> is_slash c) s) path"
      and "list_all (list_all (\<lambda>c. \<not> is_slash c)) bs"
  shows "list_all (\<lambda>s. plain_segment s \<and> list_all (\<lambda>c. \<not> is_slash c) s) (path_state path bs)"
  using assms
proof (induction bs arbitrary: path)
  case Nil
  then show ?case by simp
next
  case (Cons b bs)
  let ?buffer = "percent_encode path_percent_encode_set b"
  have safe: "list_all (\<lambda>c. \<not> path_percent_encode_set c) ?buffer"
    by (rule percent_encode_safe) (rule octet_chars_path)
  have noslash: "list_all (\<lambda>c. \<not> is_slash c) ?buffer"
    using Cons.prems(2) by (simp add: percent_encode_no_slash)
  show ?case
  proof (cases "is_double_dot ?buffer")
    case True
    have "list_all (\<lambda>s. plain_segment s \<and> list_all (\<lambda>c. \<not> is_slash c) s)
            (butlast path @ (if bs = [] then [[]] else []))"
      using Cons.prems(1) by (simp add: list_all_butlast)
    from Cons.IH [OF this] Cons.prems(2) True show ?thesis by simp
  next
    case False
    show ?thesis
    proof (cases "is_single_dot ?buffer")
      case True
      have "list_all (\<lambda>s. plain_segment s \<and> list_all (\<lambda>c. \<not> is_slash c) s)
              (path @ (if bs = [] then [[]] else []))"
        using Cons.prems(1) by simp
      from Cons.IH [OF this] Cons.prems(2) True False show ?thesis by simp
    next
      case single: False
      have "list_all (\<lambda>s. plain_segment s \<and> list_all (\<lambda>c. \<not> is_slash c) s) (path @ [?buffer])"
        using Cons.prems(1) safe noslash False single by (simp add: plain_segment_def)
      from Cons.IH [OF this] Cons.prems(2) False single show ?thesis by simp
    qed
  qed
qed

lemma tab_newline_encoded: "is_tab_or_newline c \<Longrightarrow> path_percent_encode_set c"
  unfolding is_tab_or_newline_def
  by (elim disjE)
     (simp_all add: path_percent_encode_set_def query_percent_encode_set_def
        c0_control_percent_encode_set_def)

lemma plain_no_tab_newline:
  "\<not> path_percent_encode_set c \<Longrightarrow> \<not> is_tab_or_newline c"
  using tab_newline_encoded by blast

lemma remove_tab_newline_id:
  "list_all (\<lambda>c. \<not> is_tab_or_newline c) s \<Longrightarrow> remove_tab_newline s = s"
  by (induction s) (simp_all add: remove_tab_newline_def)

paragraph \<open>Paths in normal form\<close>

lemma split_slash_buffer_mem: "\<exists>seg \<in> set (split_slash buffer s). set buffer \<subseteq> set seg"
proof (induction s arbitrary: buffer)
  case Nil
  show ?case by simp
next
  case (Cons a s)
  show ?case
  proof (cases "is_slash a")
    case True
    then show ?thesis by simp
  next
    case False
    from Cons [of "buffer @ [a]"] obtain seg
      where "seg \<in> set (split_slash (buffer @ [a]) s)" "set (buffer @ [a]) \<subseteq> set seg"
      by blast
    with False show ?thesis by auto
  qed
qed

lemma split_slash_chars:
  "c \<in> set s \<Longrightarrow> \<not> is_slash c \<Longrightarrow> \<exists>seg \<in> set (split_slash buffer s). c \<in> set seg"
proof (induction s arbitrary: buffer)
  case Nil
  then show ?case by simp
next
  case (Cons a s)
  show ?case
  proof (cases "c = a")
    case True
    with Cons.prems split_slash_buffer_mem [of "buffer @ [a]" s] show ?thesis by auto
  next
    case False
    with Cons show ?thesis by auto
  qed
qed

lemma normal_pathname_no_tab_newline:
  assumes "normal_pathname p"
  shows "list_all (\<lambda>c. \<not> is_tab_or_newline c) p"
proof -
  from assms obtain cs where p: "p = CHR ''/'' # cs"
      and segs: "list_all plain_segment (split_slash [] cs)"
    by (cases p) (auto simp: normal_pathname_def)
  have "\<not> is_tab_or_newline c" if "c \<in> set cs" for c
  proof (cases "is_slash c")
    case True
    then show ?thesis by (auto simp: is_slash_def is_tab_or_newline_def)
  next
    case False
    with that obtain seg where "seg \<in> set (split_slash [] cs)" "c \<in> set seg"
      using split_slash_chars by blast
    with segs have "\<not> path_percent_encode_set c"
      by (auto simp: list_all_iff plain_segment_def)
    then show ?thesis by (rule plain_no_tab_newline)
  qed
  with p show ?thesis by (auto simp: list_all_iff is_tab_or_newline_def)
qed

lemma parse_path_normal:
  assumes "normal_pathname p"
  shows "serialize_path (parse_path (remove_tab_newline p)) = p"
proof -
  from assms obtain cs where p: "p = CHR ''/'' # cs"
      and bs: "CHR 0x5C \<notin> set cs"
      and segs: "list_all plain_segment (split_slash [] cs)"
    by (cases p) (auto simp: normal_pathname_def)
  have "remove_tab_newline p = p"
    using normal_pathname_no_tab_newline [OF assms] by (rule remove_tab_newline_id)
  moreover have "parse_path p = split_slash [] cs"
    using p segs by (simp add: parse_path_def is_slash_def path_state_plain)
  ultimately show ?thesis using p bs by (simp add: serialize_split)
qed

lemma tab_newline_query_encoded: "is_tab_or_newline c \<Longrightarrow> special_query_percent_encode_set c"
  unfolding is_tab_or_newline_def
  by (elim disjE)
     (simp_all add: special_query_percent_encode_set_def query_percent_encode_set_def
        c0_control_percent_encode_set_def)

lemma query_no_tab_newline:
  "\<not> special_query_percent_encode_set c \<Longrightarrow> \<not> is_tab_or_newline c"
  using tab_newline_query_encoded by blast

lemma set_search_normal:
  assumes "normal_search q"
  shows "(case url_query (set_search u q) of None \<Rightarrow> [] | Some x \<Rightarrow> CHR ''?'' # x) = q"
proof (cases q)
  case Nil
  then show ?thesis by (simp add: set_search_def)
next
  case (Cons c cs)
  with assms have c: "c = CHR ''?''" and cs: "list_all (\<lambda>x. \<not> special_query_percent_encode_set x) cs"
    by (simp_all add: normal_search_def)
  from cs have "list_all (\<lambda>c. \<not> is_tab_or_newline c) cs"
    unfolding list_all_iff using query_no_tab_newline by blast
  then have "remove_tab_newline cs = cs" by (rule remove_tab_newline_id)
  with Cons c cs show ?thesis by (simp add: set_search_def percent_encode_id)
qed

lemma set_fields [simp]:
  "url_scheme (set_pathname u p) = url_scheme u"
  "url_scheme (set_search u q) = url_scheme u"
  "url_scheme (set_hash u f) = url_scheme u"
  "serialized_authority (set_pathname u p) = serialized_authority u"
  "serialized_authority (set_search u q) = serialized_authority u"
  "serialized_authority (set_hash u f) = serialized_authority u"
  "pathname (set_search u q) = pathname u"
  "pathname (set_hash u f) = pathname u"
  "pathname (set_pathname u p) = serialize_path (parse_path (remove_tab_newline p))"
  "url_query (set_pathname u p) = url_query u"
  "url_query (set_hash u f) = url_query u"
  "url_fragment (set_hash u []) = None"
  "url_query (set_search u []) = None"
  "url_fragment (set_pathname u p) = url_fragment u"
  "url_fragment (set_search u q) = url_fragment u"
  by (simp_all add: set_pathname_def set_search_def set_hash_def serialized_authority_def pathname_def)

lemma new_URL_error: "new_URL rt input = Inl e \<Longrightarrow> e = TypeError \<or> e = NotModelled"
  by (auto simp: new_URL_def Let_def split: option.splits if_splits prod.splits)

lemma length_v1: "length ''/v1'' = 3"
  by simp

lemma buildUpstreamUrl_normal:
  assumes "startsWith requestPath ''/v1''" and "new_URL rt base = Inr u"
      and "normal_pathname (strip_trailing_slashes (pathname u) @ drop 3 requestPath)"
      and "normal_search requestSearch"
  shows "buildUpstreamUrl rt base requestPath requestSearch
           = Inr (url_scheme u @ ''://'' @ serialized_authority u
                  @ strip_trailing_slashes (pathname u) @ drop 3 requestPath @ requestSearch)"
proof -
  have suffix: "(if requestPath = ''/v1'' then [] else drop (length ''/v1'') requestPath)
                  = drop 3 requestPath"
    by (simp add: length_v1 del: length_Cons list.size)
  have "buildUpstreamUrl rt base requestPath requestSearch
          = Inr (href (set_hash (set_search (set_pathname u
                  (strip_trailing_slashes (pathname u) @ drop 3 requestPath)) requestSearch) []))"
    using assms(1,2) by (simp only: buildUpstreamUrl_eq suffix not_True_eq_False not_not if_False sum.case)
  also have "href (set_hash (set_search (set_pathname u
                  (strip_trailing_slashes (pathname u) @ drop 3 requestPath)) requestSearch) [])
             = url_scheme u @ ''://'' @ serialized_authority u
                  @ strip_trailing_slashes (pathname u) @ drop 3 requestPath @ requestSearch"
    using parse_path_normal [OF assms(3)] set_search_normal [OF assms(4)]
    by (simp add: href_def)
  finally show ?thesis .
qed

lemmas eval_parse =
  new_URL_def split_scheme_def special_port_def is_scheme_char_def is_ascii_alpha_def
  is_ascii_digit_def ascii_lower_def strip_c0_control_or_space_def is_c0_control_or_space_def
  remove_tab_newline_def is_tab_or_newline_def is_slash_def is_authority_end_def
  split_credentials_def port_state_def decimal_value_def digit_value_def parse_path_def
  is_single_dot_def is_double_dot_def percent_encode_def utf8_percent_encode_def
  percent_byte_def hex_digit_upper_def
  path_percent_encode_set_def query_percent_encode_set_def special_query_percent_encode_set_def
  fragment_percent_encode_set_def userinfo_percent_encode_set_def c0_control_percent_encode_set_def
  parse_query_fragment_def Let_def

lemma new_URL_x_com:
  assumes "host_parser rt ''x.com'' = Some ''x.com''"
  shows "new_URL rt ''https://x.com/v1''
           = Inr \<lparr> url_scheme = ''https'', url_username = [], url_password = [],
                   url_host = ''x.com'', url_port = None, url_path = [''v1''],
                   url_query = None, url_fragment = None \<rparr>"
  using assms by (simp add: eval_parse)

lemma buildUpstreamUrl_InvalidProxyPath:
  "\<not> startsWith requestPath ''/v1''
     \<Longrightarrow> buildUpstreamUrl rt base requestPath requestSearch
           = Inl (OAuthCredentialsError ''invalid_proxy_path'' None)"
  by (simp add: buildUpstreamUrl_def)

lemma buildUpstreamUrl_not_InvalidProxyPath:
  assumes "startsWith requestPath ''/v1''"
  shows "buildUpstreamUrl rt base requestPath requestSearch
           \<noteq> Inl (OAuthCredentialsError ''invalid_proxy_path'' None)"
proof (cases "new_URL rt base")
  case (Inl e)
  with new_URL_error [OF Inl] assms show ?thesis
    by (auto simp: buildUpstreamUrl_eq)
next
  case (Inr u)
  with assms show ?thesis by (simp add: buildUpstreamUrl_eq)
qed

subsection \<open>\<open>buildUpstreamUrl\<close>\<close>

text \<open>
  Claim C5, as stated, fails: the \<open>pathname\<close> setter parses the text it is given, so the
  result's path is not always the concatenation. With base \<open>https://x.com/v1\<close> and
  request path \<open>/v1/../x\<close> the concatenation is \<open>/v1/../x\<close> and the result is
  \<open>https://x.com/x\<close>.
\<close>

theorem upstream_url_dot_segment_counterexample:
  "new_URL example_runtime ''https://x.com/v1''
     = Inr \<lparr> url_scheme = ''https'', url_username = [], url_password = [],
             url_host = ''x.com'', url_port = None, url_path = [''v1''],
             url_query = None, url_fragment = None \<rparr>
   \<and> strip_trailing_slashes (pathname \<lparr> url_scheme = ''https'', url_username = [], url_password = [],
             url_host = ''x.com'', url_port = None, url_path = [''v1''],
             url_query = None, url_fragment = None \<rparr>) @ drop 3 ''/v1/../x'' = ''/v1/../x''
   \<and> buildUpstreamUrl example_runtime ''https://x.com/v1'' ''/v1/../x'' [] = Inr ''https://x.com/x''"
proof -
  have h: "host_parser example_runtime ''x.com'' = Some ''x.com''"
    by (simp add: example_runtime_fields ascii_host_def is_ascii_alpha_def is_ascii_digit_def
          ascii_lower_def)
  note u = new_URL_x_com [OF h]
  show ?thesis
    by (simp add: u buildUpstreamUrl_eq eval_url del: new_URL_def)
qed

text \<open>
  Claim C5, amended. A request path that does not start with \<open>/v1\<close> fails with
  \<open>invalid_proxy_path\<close>. Otherwise, when the base parses to \<open>u\<close>, the result is \<open>u\<close> with
  its path set by the \<open>pathname\<close> setter from the base path without trailing slashes
  followed by the request path after its first three code units, its query set by the
  \<open>search\<close> setter from \<open>requestSearch\<close>, and no fragment. When that concatenation is a path
  in normal form (a leading slash, no backslash, segments that need no percent-encoding
  and are not dot segments) and \<open>requestSearch\<close> is a search in normal form, the result is
  scheme, credentials, host and port of the base, then the concatenation, then
  \<open>requestSearch\<close>. The two instances of the claim hold.
\<close>

theorem upstream_url_built:
  "(\<not> startsWith requestPath ''/v1''
      \<longrightarrow> buildUpstreamUrl rt base requestPath requestSearch
            = Inl (OAuthCredentialsError ''invalid_proxy_path'' None))
   \<and> (startsWith requestPath ''/v1'' \<and> new_URL rt base = Inr u
        \<and> normal_pathname (strip_trailing_slashes (pathname u) @ drop 3 requestPath)
        \<and> normal_search requestSearch
      \<longrightarrow> buildUpstreamUrl rt base requestPath requestSearch
            = Inr (url_scheme u @ ''://'' @ serialized_authority u
                   @ strip_trailing_slashes (pathname u) @ drop 3 requestPath @ requestSearch))
   \<and> (startsWith requestPath ''/v1'' \<and> new_URL rt base = Inr u
      \<longrightarrow> buildUpstreamUrl rt base requestPath requestSearch
            = Inr (href (set_hash (set_search (set_pathname u
                     (strip_trailing_slashes (pathname u) @ drop 3 requestPath)) requestSearch) [])))
   \<and> (host_parser rt ''x.com'' = Some ''x.com''
      \<longrightarrow> buildUpstreamUrl rt ''https://x.com/v1'' ''/v1/chat/completions'' ''?a=1''
            = Inr ''https://x.com/v1/chat/completions?a=1''
        \<and> buildUpstreamUrl rt ''https://x.com/v1'' ''/v1'' [] = Inr ''https://x.com/v1'')"
proof -
  have general: "buildUpstreamUrl rt base requestPath requestSearch
            = Inr (href (set_hash (set_search (set_pathname u
                     (strip_trailing_slashes (pathname u) @ drop 3 requestPath)) requestSearch) []))"
    if "startsWith requestPath ''/v1''" "new_URL rt base = Inr u"
  proof -
    have "(if requestPath = ''/v1'' then [] else drop (length ''/v1'') requestPath)
                  = drop 3 requestPath"
      by (simp add: length_v1 del: length_Cons list.size)
    with that show ?thesis
      by (simp only: buildUpstreamUrl_eq not_True_eq_False not_not if_False sum.case)
  qed
  have examples: "buildUpstreamUrl rt ''https://x.com/v1'' ''/v1/chat/completions'' ''?a=1''
            = Inr ''https://x.com/v1/chat/completions?a=1''
        \<and> buildUpstreamUrl rt ''https://x.com/v1'' ''/v1'' [] = Inr ''https://x.com/v1''"
    if "host_parser rt ''x.com'' = Some ''x.com''"
    by (simp add: new_URL_x_com [OF that] buildUpstreamUrl_eq eval_url del: new_URL_def)
  from buildUpstreamUrl_InvalidProxyPath buildUpstreamUrl_normal general examples
  show ?thesis by blast
qed


lemma example_host_x_com: "host_parser example_runtime ''x.com'' = Some ''x.com''"
  by (simp add: example_runtime_fields ascii_host_def is_ascii_alpha_def is_ascii_digit_def
        ascii_lower_def)

lemmas eval_normal =
  normal_pathname_def normal_search_def plain_segment_def is_single_dot_def is_double_dot_def
  ascii_lower_def is_slash_def path_percent_encode_set_def query_percent_encode_set_def
  special_query_percent_encode_set_def c0_control_percent_encode_set_def
  strip_trailing_slashes_def pathname_def serialize_path_def startsWith_def
  serialized_authority_def

theorem upstream_url_built_witness:
  "startsWith ''/v1/chat/completions'' ''/v1''
   \<and> new_URL example_runtime ''https://x.com/v1''
       = Inr \<lparr> url_scheme = ''https'', url_username = [], url_password = [],
               url_host = ''x.com'', url_port = None, url_path = [''v1''],
               url_query = None, url_fragment = None \<rparr>
   \<and> normal_pathname ''/v1/chat/completions'' \<and> normal_search ''?a=1''
   \<and> buildUpstreamUrl example_runtime ''https://x.com/v1'' ''/v1/chat/completions'' ''?a=1''
       = Inr ''https://x.com/v1/chat/completions?a=1''
   \<and> buildUpstreamUrl example_runtime ''https://x.com/v1'' ''/v2/chat'' []
       = Inl (OAuthCredentialsError ''invalid_proxy_path'' None)"
  using upstream_url_built [of "''/v1/chat/completions''" example_runtime "''https://x.com/v1''" "''?a=1''"
          "\<lparr> url_scheme = ''https'', url_username = [], url_password = [],
               url_host = ''x.com'', url_port = None, url_path = [''v1''],
               url_query = None, url_fragment = None \<rparr>"]
        upstream_url_built [of "''/v2/chat''" example_runtime "''https://x.com/v1''" "[]"]
        new_URL_x_com [OF example_host_x_com] example_host_x_com
  by (simp add: eval_normal)

text \<open>
  Claim C10, as stated, fails for the same reason: with base \<open>https://x.com/v1\<close> and
  request path \<open>/v1beta/../x\<close>, where \<open>/v1\<close> is not a complete segment, the base path
  followed by the code units after \<open>/v1\<close> is \<open>/v1beta/../x\<close> and the result is
  \<open>https://x.com/x\<close>.
\<close>

theorem prefix_not_segment_counterexample:
  "startsWith ''/v1beta/../x'' ''/v1''
   \<and> new_URL example_runtime ''https://x.com/v1''
       = Inr \<lparr> url_scheme = ''https'', url_username = [], url_password = [],
               url_host = ''x.com'', url_port = None, url_path = [''v1''],
               url_query = None, url_fragment = None \<rparr>
   \<and> strip_trailing_slashes (pathname \<lparr> url_scheme = ''https'', url_username = [], url_password = [],
             url_host = ''x.com'', url_port = None, url_path = [''v1''],
             url_query = None, url_fragment = None \<rparr>) @ drop 3 ''/v1beta/../x'' = ''/v1beta/../x''
   \<and> buildUpstreamUrl example_runtime ''https://x.com/v1'' ''/v1beta/../x'' [] = Inr ''https://x.com/x''"
  by (simp add: new_URL_x_com [OF example_host_x_com] buildUpstreamUrl_eq eval_url del: new_URL_def)

text \<open>
  Claim C10, amended. The test is on the first three code units: a request path that
  starts with \<open>/v1\<close> never fails with \<open>invalid_proxy_path\<close>, whether or not \<open>/v1\<close> is a
  complete segment. When it is not, the base parses, and the base path followed by the
  code units after \<open>/v1\<close> is a path in normal form, the result is the base's scheme,
  credentials, host and port followed by that concatenation; so \<open>/v1foo\<close> on
  \<open>https://x.com/v1\<close> yields \<open>https://x.com/v1foo\<close>.
\<close>

theorem prefix_test_is_literal:
  "(startsWith requestPath ''/v1''
      \<longrightarrow> buildUpstreamUrl rt base requestPath requestSearch
            \<noteq> Inl (OAuthCredentialsError ''invalid_proxy_path'' None))
   \<and> (startsWith requestPath ''/v1'' \<and> requestPath \<noteq> ''/v1'' \<and> \<not> startsWith requestPath ''/v1/''
        \<and> new_URL rt base = Inr u
        \<and> normal_pathname (strip_trailing_slashes (pathname u) @ drop 3 requestPath)
      \<longrightarrow> buildUpstreamUrl rt base requestPath []
            = Inr (url_scheme u @ ''://'' @ serialized_authority u
                   @ strip_trailing_slashes (pathname u) @ drop 3 requestPath))
   \<and> (host_parser rt ''x.com'' = Some ''x.com''
      \<longrightarrow> buildUpstreamUrl rt ''https://x.com/v1'' ''/v1foo'' [] = Inr ''https://x.com/v1foo'')"
proof -
  have plain: "buildUpstreamUrl rt base requestPath []
            = Inr (url_scheme u @ ''://'' @ serialized_authority u
                   @ strip_trailing_slashes (pathname u) @ drop 3 requestPath)"
    if "startsWith requestPath ''/v1''" "new_URL rt base = Inr u"
       "normal_pathname (strip_trailing_slashes (pathname u) @ drop 3 requestPath)"
    using buildUpstreamUrl_normal [OF that, of "[]"] by (simp add: normal_search_def)
  have example: "buildUpstreamUrl rt ''https://x.com/v1'' ''/v1foo'' [] = Inr ''https://x.com/v1foo''"
    if "host_parser rt ''x.com'' = Some ''x.com''"
    by (simp add: new_URL_x_com [OF that] buildUpstreamUrl_eq eval_url del: new_URL_def)
  from buildUpstreamUrl_not_InvalidProxyPath plain example show ?thesis by blast
qed

theorem prefix_test_is_literal_witness:
  "startsWith ''/v1foo'' ''/v1'' \<and> ''/v1foo'' \<noteq> ''/v1'' \<and> \<not> startsWith ''/v1foo'' ''/v1/''
   \<and> new_URL example_runtime ''https://x.com/v1''
       = Inr \<lparr> url_scheme = ''https'', url_username = [], url_password = [],
               url_host = ''x.com'', url_port = None, url_path = [''v1''],
               url_query = None, url_fragment = None \<rparr>
   \<and> normal_pathname ''/v1foo''
   \<and> buildUpstreamUrl example_runtime ''https://x.com/v1'' ''/v1foo'' [] = Inr ''https://x.com/v1foo''"
  using prefix_test_is_literal [of "''/v1foo''" example_runtime "''https://x.com/v1''" "[]"
          "\<lparr> url_scheme = ''https'', url_username = [], url_password = [],
               url_host = ''x.com'', url_port = None, url_path = [''v1''],
               url_query = None, url_fragment = None \<rparr>"]
        new_URL_x_com [OF example_host_x_com] example_host_x_com
  by (simp add: eval_normal)

subsection \<open>Single-flight refresh\<close>

lemma single_flight_unsettled:
  "single_flight s \<Longrightarrow> k < length (operations s) \<Longrightarrow> unsettled (operations s ! k)
     \<Longrightarrow> refreshPromise s = Some k"
  unfolding single_flight_def by blast

lemma single_flight_awaiting:
  "single_flight s \<Longrightarrow> Awaiting k \<in> set (calls s) \<Longrightarrow> refreshPromise s = Some k"
  unfolding single_flight_def by blast

lemma single_flight_slot:
  "single_flight s \<Longrightarrow> refreshPromise s = Some k
     \<Longrightarrow> k < length (operations s) \<and> unsettled (operations s ! k) \<and> Awaiting k \<in> set (calls s)"
  unfolding single_flight_def by blast

lemma single_flightI:
  assumes "\<And>k. k < length (operations s) \<Longrightarrow> unsettled (operations s ! k) \<Longrightarrow> refreshPromise s = Some k"
      and "\<And>k. Awaiting k \<in> set (calls s) \<Longrightarrow> refreshPromise s = Some k"
      and "\<And>k. refreshPromise s = Some k \<Longrightarrow> k < length (operations s)"
      and "\<And>k. refreshPromise s = Some k \<Longrightarrow> unsettled (operations s ! k)"
      and "\<And>k. refreshPromise s = Some k \<Longrightarrow> Awaiting k \<in> set (calls s)"
  shows "single_flight s"
  unfolding single_flight_def using assms by blast


lemma unsettled_simps [simp]:
  "unsettled (Fetching c)" "unsettled (Saving c u)" "unsettled (Renamed c)"
  "\<not> unsettled (Finished r)"
  by (simp_all add: unsettled_def)

lemma settle_fields:
  "operations (settle k r s) = (operations s)[k := Finished r]"
  "calls (settle k r s) = resume_waiters k r (calls s)"
  "refreshPromise (settle k r s) = (if Awaiting k \<in> set (calls s) then None else refreshPromise s)"
  "loop_disk (settle k r s) = loop_disk s"
  by (simp_all add: settle_def)

lemma resume_waiters_awaiting:
  "Awaiting j \<in> set (resume_waiters k r cs) \<Longrightarrow> Awaiting j \<in> set cs \<and> j \<noteq> k"
  by (auto simp: resume_waiters_def split: if_splits)

lemma resume_waiters_nth:
  "i < length cs \<Longrightarrow> cs ! i = Awaiting k \<Longrightarrow> resume_waiters k r cs ! i = Settled r"
  by (simp add: resume_waiters_def)

lemma settle_clears:
  assumes inv: "single_flight s" and k: "k < length (operations s)"
      and u: "unsettled (operations s ! k)"
  shows "refreshPromise (settle k r s) = None"
proof -
  from single_flight_unsettled [OF inv k u] have "refreshPromise s = Some k" .
  from single_flight_slot [OF inv this] have "Awaiting k \<in> set (calls s)" by blast
  then show ?thesis by (simp add: settle_fields)
qed

lemma single_flight_settle:
  assumes inv: "single_flight s" and k: "k < length (operations s)"
      and u: "unsettled (operations s ! k)"
  shows "single_flight (settle k r s)"
proof (rule single_flightI)
  have slot: "refreshPromise s = Some k" by (rule single_flight_unsettled [OF inv k u])
  have cleared: "refreshPromise (settle k r s) = None" by (rule settle_clears [OF inv k u])
  fix j
  show "refreshPromise (settle k r s) = Some j"
    if "j < length (operations (settle k r s))" "unsettled (operations (settle k r s) ! j)"
  proof (cases "j = k")
    case True
    with that k show ?thesis by (simp add: settle_fields)
  next
    case False
    with that have "j < length (operations s)" "unsettled (operations s ! j)"
      by (simp_all add: settle_fields)
    from single_flight_unsettled [OF inv this] slot False show ?thesis by simp
  qed
  show "refreshPromise (settle k r s) = Some j" if "Awaiting j \<in> set (calls (settle k r s))"
  proof -
    from that have "Awaiting j \<in> set (calls s)" "j \<noteq> k"
      using resume_waiters_awaiting [of j k r "calls s"] by (simp_all add: settle_fields)
    from single_flight_awaiting [OF inv this(1)] slot this(2) show ?thesis by simp
  qed
  show "j < length (operations (settle k r s))" if "refreshPromise (settle k r s) = Some j"
    using that cleared by simp
  show "unsettled (operations (settle k r s) ! j)" if "refreshPromise (settle k r s) = Some j"
    using that cleared by simp
  show "Awaiting j \<in> set (calls (settle k r s))" if "refreshPromise (settle k r s) = Some j"
    using that cleared by simp
qed


lemma set_update_other:
  assumes "i < length cs" "cs ! i \<noteq> x" "x \<in> set cs"
  shows "x \<in> set (cs[i := y])"
proof -
  from assms(3) obtain j where j: "j < length cs" "cs ! j = x" by (auto simp: in_set_conv_nth)
  with assms(2) have "j \<noteq> i" by auto
  with j have "cs[i := y] ! j = x" "j < length (cs[i := y])" by simp_all
  then show ?thesis using nth_mem by blast
qed

lemma set_update_cases: "x \<in> set (cs[i := y]) \<Longrightarrow> x = y \<or> x \<in> set cs"
  using set_update_subset_insert [of cs i y] by blast

lemma single_flight_calls_update:
  assumes inv: "single_flight s" and i: "i < length (calls s)"
      and old: "\<And>k. calls s ! i \<noteq> Awaiting k" and new: "\<And>k. c \<noteq> Awaiting k"
  shows "single_flight (s \<lparr> calls := (calls s)[i := c] \<rparr>)"
proof (rule single_flightI)
  fix k
  show "refreshPromise (s \<lparr> calls := (calls s)[i := c] \<rparr>) = Some k"
    if "k < length (operations (s \<lparr> calls := (calls s)[i := c] \<rparr>))"
       "unsettled (operations (s \<lparr> calls := (calls s)[i := c] \<rparr>) ! k)"
    using that single_flight_unsettled [OF inv, of k] by simp
  show "refreshPromise (s \<lparr> calls := (calls s)[i := c] \<rparr>) = Some k"
    if "Awaiting k \<in> set (calls (s \<lparr> calls := (calls s)[i := c] \<rparr>))"
  proof -
    from that have "Awaiting k \<in> set ((calls s)[i := c])" by simp
    from set_update_cases [OF this] new [of k] have "Awaiting k \<in> set (calls s)" by blast
    from single_flight_awaiting [OF inv this] show ?thesis by simp
  qed
  show "k < length (operations (s \<lparr> calls := (calls s)[i := c] \<rparr>))"
    if "refreshPromise (s \<lparr> calls := (calls s)[i := c] \<rparr>) = Some k"
    using that single_flight_slot [OF inv, of k] by simp
  show "unsettled (operations (s \<lparr> calls := (calls s)[i := c] \<rparr>) ! k)"
    if "refreshPromise (s \<lparr> calls := (calls s)[i := c] \<rparr>) = Some k"
    using that single_flight_slot [OF inv, of k] by simp
  show "Awaiting k \<in> set (calls (s \<lparr> calls := (calls s)[i := c] \<rparr>))"
    if "refreshPromise (s \<lparr> calls := (calls s)[i := c] \<rparr>) = Some k"
  proof -
    from that single_flight_slot [OF inv, of k] have "Awaiting k \<in> set (calls s)" by simp
    from set_update_other [OF i old this] show ?thesis by simp
  qed
qed

lemma single_flight_join:
  assumes inv: "single_flight s" and i: "i < length (calls s)"
      and slot: "refreshPromise s = Some k"
  shows "single_flight (s \<lparr> calls := (calls s)[i := Awaiting k] \<rparr>)"
proof (rule single_flightI)
  fix j
  show "refreshPromise (s \<lparr> calls := (calls s)[i := Awaiting k] \<rparr>) = Some j"
    if "j < length (operations (s \<lparr> calls := (calls s)[i := Awaiting k] \<rparr>))"
       "unsettled (operations (s \<lparr> calls := (calls s)[i := Awaiting k] \<rparr>) ! j)"
    using that single_flight_unsettled [OF inv, of j] by simp
  show "refreshPromise (s \<lparr> calls := (calls s)[i := Awaiting k] \<rparr>) = Some j"
    if "Awaiting j \<in> set (calls (s \<lparr> calls := (calls s)[i := Awaiting k] \<rparr>))"
  proof -
    from that have "Awaiting j \<in> set ((calls s)[i := Awaiting k])" by simp
    from set_update_cases [OF this] have "j = k \<or> Awaiting j \<in> set (calls s)" by blast
    with single_flight_awaiting [OF inv, of j] slot show ?thesis by auto
  qed
  have same: "j = k" if "refreshPromise (s \<lparr> calls := (calls s)[i := Awaiting k] \<rparr>) = Some j"
    using that slot by simp
  show "j < length (operations (s \<lparr> calls := (calls s)[i := Awaiting k] \<rparr>))"
    if "refreshPromise (s \<lparr> calls := (calls s)[i := Awaiting k] \<rparr>) = Some j"
    using same [OF that] single_flight_slot [OF inv slot] by simp
  show "unsettled (operations (s \<lparr> calls := (calls s)[i := Awaiting k] \<rparr>) ! j)"
    if "refreshPromise (s \<lparr> calls := (calls s)[i := Awaiting k] \<rparr>) = Some j"
    using same [OF that] single_flight_slot [OF inv slot] by simp
  show "Awaiting j \<in> set (calls (s \<lparr> calls := (calls s)[i := Awaiting k] \<rparr>))"
    if "refreshPromise (s \<lparr> calls := (calls s)[i := Awaiting k] \<rparr>) = Some j"
    using same [OF that] i by (simp add: set_update_memI)
qed

lemma single_flight_start:
  assumes inv: "single_flight s" and i: "i < length (calls s)"
      and slot: "refreshPromise s = None"
  shows "single_flight (s \<lparr> refreshPromise := Some (length (operations s)),
                            operations := operations s @ [Fetching current],
                            calls := (calls s)[i := Awaiting (length (operations s))] \<rparr>)"
    (is "single_flight ?s'")
proof (rule single_flightI)
  have ops: "operations ?s' = operations s @ [Fetching current]"
    and cs: "calls ?s' = (calls s)[i := Awaiting (length (operations s))]"
    and sl: "refreshPromise ?s' = Some (length (operations s))"
    by simp_all
  fix j
  show "refreshPromise ?s' = Some j" if "j < length (operations ?s')" "unsettled (operations ?s' ! j)"
  proof (cases "j < length (operations s)")
    case True
    with that(2) have "unsettled (operations s ! j)" by (simp add: nth_append)
    from single_flight_unsettled [OF inv True this] slot show ?thesis by simp
  next
    case False
    with that(1) have "j = length (operations s)" by simp
    then show ?thesis by simp
  qed
  show "refreshPromise ?s' = Some j" if "Awaiting j \<in> set (calls ?s')"
  proof -
    from that have "Awaiting j \<in> set ((calls s)[i := Awaiting (length (operations s))])" by simp
    from set_update_cases [OF this]
    have "j = length (operations s) \<or> Awaiting j \<in> set (calls s)" by blast
    with single_flight_awaiting [OF inv, of j] slot show ?thesis by auto
  qed
  have same: "j = length (operations s)" if "refreshPromise ?s' = Some j"
    using that by simp
  show "j < length (operations ?s')" if "refreshPromise ?s' = Some j"
    using same [OF that] by simp
  show "unsettled (operations ?s' ! j)" if "refreshPromise ?s' = Some j"
    using same [OF that] by simp
  show "Awaiting j \<in> set (calls ?s')" if "refreshPromise ?s' = Some j"
    using same [OF that] i by (simp add: set_update_memI)
qed

lemma single_flight_operation_update:
  assumes inv: "single_flight s" and k: "k < length (operations s)"
      and u: "unsettled (operations s ! k)" and u': "unsettled op"
  shows "single_flight (s \<lparr> loop_disk := d, operations := (operations s)[k := op] \<rparr>)"
    (is "single_flight ?s'")
proof (rule single_flightI)
  have same: "unsettled ((operations s)[k := op] ! j) = unsettled (operations s ! j)"
    if "j < length (operations s)" for j
    using that u u' k by (cases "j = k") simp_all
  fix j
  show "refreshPromise ?s' = Some j" if "j < length (operations ?s')" "unsettled (operations ?s' ! j)"
  proof -
    from that have j: "j < length (operations s)" by simp
    with that(2) same [OF j] have "unsettled (operations s ! j)" by simp
    from single_flight_unsettled [OF inv j this] show ?thesis by simp
  qed
  show "refreshPromise ?s' = Some j" if "Awaiting j \<in> set (calls ?s')"
    using that single_flight_awaiting [OF inv, of j] by simp
  show "j < length (operations ?s')" if "refreshPromise ?s' = Some j"
    using that single_flight_slot [OF inv, of j] by simp
  show "unsettled (operations ?s' ! j)" if "refreshPromise ?s' = Some j"
  proof -
    from that single_flight_slot [OF inv, of j]
    have j: "j < length (operations s)" "unsettled (operations s ! j)" by simp_all
    with same [OF j(1)] show ?thesis by simp
  qed
  show "Awaiting j \<in> set (calls ?s')" if "refreshPromise ?s' = Some j"
    using that single_flight_slot [OF inv, of j] by simp
qed


lemma step_Invoke:
  "step rt options (Invoke force) s = Some (s \<lparr> calls := calls s @ [Reading force] \<rparr>)"
  by (simp add: step_def)

lemma step_ReadIO:
  "step rt options (ReadIO i) s = Some s' \<Longrightarrow>
     \<exists>force. i < length (calls s) \<and> calls s ! i = Reading force
       \<and> s' = s \<lparr> calls := (calls s)
                  [i := ReadGot force (readCredentials rt options (entries (loop_disk s)))] \<rparr>"
  by (cases "calls s ! i") (simp_all add: step_def split: if_splits)

lemma step_ReadDone:
  "step rt options (ReadDone i now) s = Some s' \<Longrightarrow>
     \<exists>force r. i < length (calls s) \<and> calls s ! i = ReadGot force r
       \<and> s' = (case after_read options now force r of
                 ReturnCurrent current \<Rightarrow> s \<lparr> calls := (calls s)[i := Settled (Inr current)] \<rparr>
               | Throw e \<Rightarrow> s \<lparr> calls := (calls s)[i := Settled (Inl e)] \<rparr>
               | NeedRefresh current \<Rightarrow>
                   (case refreshPromise s of
                      None \<Rightarrow> s \<lparr> refreshPromise := Some (length (operations s)),
                                  operations := operations s @ [Fetching current],
                                  calls := (calls s)[i := Awaiting (length (operations s))] \<rparr>
                    | Some k \<Rightarrow> s \<lparr> calls := (calls s)[i := Awaiting k] \<rparr>))"
  by (cases "calls s ! i")
     (simp_all add: step_def split: if_splits decision.splits option.splits)

lemma step_FetchDone:
  "step rt options (FetchDone k env) s = Some s' \<Longrightarrow>
     \<exists>current. k < length (operations s) \<and> operations s ! k = Fetching current
       \<and> s' = (case nextCredentials rt (clock env) current (token_reply env) of
                 Inl e \<Rightarrow> settle k (Inl e) s
               | Inr next \<Rightarrow> s \<lparr> operations := (operations s)[k := Saving next (tmp_uuid env)] \<rparr>)"
  by (cases "operations s ! k") (simp_all add: step_def split: if_splits sum.splits)

lemma step_RenameIO:
  "step rt options (RenameIO k) s = Some s' \<Longrightarrow>
     \<exists>next uuid. k < length (operations s) \<and> operations s ! k = Saving next uuid
       \<and> s' = s \<lparr> loop_disk := saveCredentials rt options uuid next (loop_disk s),
                  operations := (operations s)[k := Renamed next] \<rparr>"
  by (cases "operations s ! k") (simp_all add: step_def split: if_splits)

lemma step_SaveDone:
  "step rt options (SaveDone k) s = Some s' \<Longrightarrow>
     \<exists>next. k < length (operations s) \<and> operations s ! k = Renamed next
       \<and> s' = settle k (Inr next) s"
  by (cases "operations s ! k") (simp_all add: step_def split: if_splits)

lemma single_flight_append_call:
  assumes inv: "single_flight s"
  shows "single_flight (s \<lparr> calls := calls s @ [Reading force] \<rparr>)"
proof (rule single_flightI)
  fix k
  show "refreshPromise (s \<lparr> calls := calls s @ [Reading force] \<rparr>) = Some k"
    if "k < length (operations (s \<lparr> calls := calls s @ [Reading force] \<rparr>))"
       "unsettled (operations (s \<lparr> calls := calls s @ [Reading force] \<rparr>) ! k)"
    using that single_flight_unsettled [OF inv, of k] by simp
  show "refreshPromise (s \<lparr> calls := calls s @ [Reading force] \<rparr>) = Some k"
    if "Awaiting k \<in> set (calls (s \<lparr> calls := calls s @ [Reading force] \<rparr>))"
    using that single_flight_awaiting [OF inv, of k] by simp
  show "k < length (operations (s \<lparr> calls := calls s @ [Reading force] \<rparr>))"
    if "refreshPromise (s \<lparr> calls := calls s @ [Reading force] \<rparr>) = Some k"
    using that single_flight_slot [OF inv, of k] by simp
  show "unsettled (operations (s \<lparr> calls := calls s @ [Reading force] \<rparr>) ! k)"
    if "refreshPromise (s \<lparr> calls := calls s @ [Reading force] \<rparr>) = Some k"
    using that single_flight_slot [OF inv, of k] by simp
  show "Awaiting k \<in> set (calls (s \<lparr> calls := calls s @ [Reading force] \<rparr>))"
    if "refreshPromise (s \<lparr> calls := calls s @ [Reading force] \<rparr>) = Some k"
    using that single_flight_slot [OF inv, of k] by simp
qed

lemma single_flight_operation_update':
  assumes inv: "single_flight s" and k: "k < length (operations s)"
      and u: "unsettled (operations s ! k)" and u': "unsettled op"
  shows "single_flight (s \<lparr> operations := (operations s)[k := op] \<rparr>)"
  using single_flight_operation_update [OF assms, of "loop_disk s"] by simp

lemma single_flight_step:
  assumes inv: "single_flight s" and st: "step rt options t s = Some s'"
  shows "single_flight s'"
proof (cases t)
  case (Invoke force)
  with st have "s' = s \<lparr> calls := calls s @ [Reading force] \<rparr>" by (simp add: step_Invoke)
  with single_flight_append_call [OF inv] show ?thesis by simp
next
  case (ReadIO i)
  with st step_ReadIO obtain force where i: "i < length (calls s)"
      and c: "calls s ! i = Reading force"
      and s': "s' = s \<lparr> calls := (calls s)
                    [i := ReadGot force (readCredentials rt options (entries (loop_disk s)))] \<rparr>"
    by blast
  from c have "\<And>k. calls s ! i \<noteq> Awaiting k" by simp
  from single_flight_calls_update [OF inv i this] s' show ?thesis by simp
next
  case (ReadDone i now)
  with st step_ReadDone [of rt options i now s s'] obtain force r
    where i: "i < length (calls s)" and c: "calls s ! i = ReadGot force r"
      and s': "s' = (case after_read options now force r of
                 ReturnCurrent current \<Rightarrow> s \<lparr> calls := (calls s)[i := Settled (Inr current)] \<rparr>
               | Throw e \<Rightarrow> s \<lparr> calls := (calls s)[i := Settled (Inl e)] \<rparr>
               | NeedRefresh current \<Rightarrow>
                   (case refreshPromise s of
                      None \<Rightarrow> s \<lparr> refreshPromise := Some (length (operations s)),
                                  operations := operations s @ [Fetching current],
                                  calls := (calls s)[i := Awaiting (length (operations s))] \<rparr>
                    | Some k \<Rightarrow> s \<lparr> calls := (calls s)[i := Awaiting k] \<rparr>))"
    by blast
  from c have old: "\<And>k. calls s ! i \<noteq> Awaiting k" by simp
  show ?thesis
  proof (cases "after_read options now force r")
    case (ReturnCurrent current)
    with s' single_flight_calls_update [OF inv i old, of "Settled (Inr current)"]
    show ?thesis by simp
  next
    case (Throw e)
    with s' single_flight_calls_update [OF inv i old, of "Settled (Inl e)"]
    show ?thesis by simp
  next
    case (NeedRefresh current)
    show ?thesis
    proof (cases "refreshPromise s")
      case None
      with s' NeedRefresh single_flight_start [OF inv i None, of current] show ?thesis by simp
    next
      case (Some k)
      with s' NeedRefresh single_flight_join [OF inv i Some] show ?thesis by simp
    qed
  qed
next
  case (FetchDone k env)
  with st step_FetchDone [of rt options k env s s'] obtain current
    where k: "k < length (operations s)" and op: "operations s ! k = Fetching current"
      and s': "s' = (case nextCredentials rt (clock env) current (token_reply env) of
                 Inl e \<Rightarrow> settle k (Inl e) s
               | Inr next \<Rightarrow> s \<lparr> operations := (operations s)[k := Saving next (tmp_uuid env)] \<rparr>)"
    by blast
  from op have u: "unsettled (operations s ! k)" by simp
  show ?thesis
  proof (cases "nextCredentials rt (clock env) current (token_reply env)")
    case (Inl e)
    with s' single_flight_settle [OF inv k u, of "Inl e"] show ?thesis by simp
  next
    case (Inr nxt)
    with s' single_flight_operation_update' [OF inv k u, of "Saving nxt (tmp_uuid env)"]
    show ?thesis by simp
  qed
next
  case (RenameIO k)
  with st step_RenameIO [of rt options k s s'] obtain nxt uuid
    where k: "k < length (operations s)" and op: "operations s ! k = Saving nxt uuid"
      and s': "s' = s \<lparr> loop_disk := saveCredentials rt options uuid nxt (loop_disk s),
                            operations := (operations s)[k := Renamed nxt] \<rparr>"
    by blast
  from op have u: "unsettled (operations s ! k)" by simp
  from single_flight_operation_update [OF inv k u, of "Renamed nxt"] s' show ?thesis by simp
next
  case (SaveDone k)
  with st step_SaveDone [of rt options k s s'] obtain nxt
    where k: "k < length (operations s)" and op: "operations s ! k = Renamed nxt"
      and s': "s' = settle k (Inr nxt) s"
    by blast
  from op have u: "unsettled (operations s ! k)" by simp
  from single_flight_settle [OF inv k u] s' show ?thesis by simp
qed

lemma single_flight_run:
  "single_flight s \<Longrightarrow> run rt options ts s = Some s' \<Longrightarrow> single_flight s'"
proof (induction ts arbitrary: s)
  case Nil
  then show ?case by simp
next
  case (Cons t ts)
  then obtain s1 where s1: "step rt options t s = Some s1" "run rt options ts s1 = Some s'"
    by (auto split: option.splits)
  from Cons.IH [OF single_flight_step [OF Cons.prems(1) s1(1)] s1(2)] show ?case .
qed

lemma single_flight_idle: "single_flight (idle d)"
  by (rule single_flightI) (simp_all add: idle_def)

lemmas eval_loop =
  step_def settle_def resume_waiters_def idle_def token_requests_def after_read_def
  isTokenValid_def readCredentials_def parseCredentials_def nextCredentials_def response_ok_def
  example_JSON_parse_def example_runtime_fields saveCredentials_def Let_def
  JSON_stringify_indent2_def written_properties_def json_quote_def json_escape_def eval_decimal

text \<open>
  Claim C1, as stated, fails: not every interleaving of concurrent calls that all need a
  refresh sends one token request. Two calls of \<open>getValidCredentials(true)\<close> are in flight
  together; the first reads the file, starts operation 0 and the operation settles (the
  slot is cleared) before the read of the second call has been served. The second call
  finds the slot empty and starts operation 1: two token requests, and the calls return
  different credentials.
\<close>

theorem single_flight_counterexample:
  \<open>map_option (\<lambda>s. (token_requests s, calls s))
     (run example_runtime \<lparr> credentialsFile = ''/c.json'', tokenRefreshBufferMs = 30000 \<rparr>
        [Invoke True, Invoke True,
         ReadIO 0, ReadDone 0 0,
         FetchDone 0 \<lparr> token_reply = TokenResponse 200 ''{"access_token":"a"}'', clock = 0,
                       tmp_uuid = ''u1'' \<rparr>,
         RenameIO 0, SaveDone 0,
         ReadIO 1, ReadDone 1 1,
         FetchDone 1 \<lparr> token_reply = TokenResponse 200 ''{"access_token":"b"}'', clock = 1,
                       tmp_uuid = ''u2'' \<rparr>,
         RenameIO 1, SaveDone 1]
        (idle \<lparr> entries = [''/c.json'' \<mapsto> Content
            ''{"access_token":"t","refresh_token":"r","expiry_date":100000}''], journal = [] \<rparr>))
   = Some (2,
       [Settled (Inr \<lparr> access_token = Some ''a'', refresh_token = Some ''r'', token_type = None,
                       expiry_date = Some 3600000, resource_url = None \<rparr>),
        Settled (Inr \<lparr> access_token = Some ''b'', refresh_token = Some ''r'', token_type = None,
                       expiry_date = Some 3600001, resource_url = None \<rparr>)])\<close>
  by (simp add: eval_loop)


lemma step_finishes:
  assumes st: "step rt options t s = Some s'" and k: "k < length (operations s)"
      and u: "unsettled (operations s ! k)" and f: "operations s' ! k = Finished r"
  shows "s' = settle k r s"
proof (cases t)
  case (Invoke force)
  with st have "operations s' = operations s" by (auto simp: step_Invoke)
  with u f show ?thesis by simp
next
  case (ReadIO i)
  with st step_ReadIO [of rt options i s s'] have "operations s' = operations s" by auto
  with u f show ?thesis by simp
next
  case (ReadDone i now)
  with st step_ReadDone [of rt options i now s s'] obtain force x where
    "s' = (case after_read options now force x of
                 ReturnCurrent current \<Rightarrow> s \<lparr> calls := (calls s)[i := Settled (Inr current)] \<rparr>
               | Throw e \<Rightarrow> s \<lparr> calls := (calls s)[i := Settled (Inl e)] \<rparr>
               | NeedRefresh current \<Rightarrow>
                   (case refreshPromise s of
                      None \<Rightarrow> s \<lparr> refreshPromise := Some (length (operations s)),
                                  operations := operations s @ [Fetching current],
                                  calls := (calls s)[i := Awaiting (length (operations s))] \<rparr>
                    | Some k \<Rightarrow> s \<lparr> calls := (calls s)[i := Awaiting k] \<rparr>))"
    by blast
  then have "operations s' ! k = operations s ! k"
    using k by (simp add: nth_append split: decision.splits option.splits)
  with u f show ?thesis by simp
next
  case (FetchDone j env)
  with st step_FetchDone [of rt options j env s s'] obtain current
    where j: "j < length (operations s)" and op: "operations s ! j = Fetching current"
      and s': "s' = (case nextCredentials rt (clock env) current (token_reply env) of
                 Inl e \<Rightarrow> settle j (Inl e) s
               | Inr nxt \<Rightarrow> s \<lparr> operations := (operations s)[j := Saving nxt (tmp_uuid env)] \<rparr>)"
    by blast
  show ?thesis
  proof (cases "nextCredentials rt (clock env) current (token_reply env)")
    case (Inl e)
    with s' have s'': "s' = settle j (Inl e) s" by simp
    show ?thesis
    proof (cases "j = k")
      case True
      with s'' f k show ?thesis by (simp add: settle_fields)
    next
      case False
      with s'' have "operations s' ! k = operations s ! k" by (simp add: settle_fields)
      with u f show ?thesis by simp
    qed
  next
    case (Inr nxt)
    with s' have s'': "s' = s \<lparr> operations := (operations s)[j := Saving nxt (tmp_uuid env)] \<rparr>"
      by simp
    show ?thesis
    proof (cases "j = k")
      case True
      with s'' f k show ?thesis by simp
    next
      case False
      with s'' have "operations s' ! k = operations s ! k" by simp
      with u f show ?thesis by simp
    qed
  qed
next
  case (RenameIO j)
  with st step_RenameIO [of rt options j s s'] obtain nxt uuid
    where s': "s' = s \<lparr> loop_disk := saveCredentials rt options uuid nxt (loop_disk s),
                            operations := (operations s)[j := Renamed nxt] \<rparr>"
    by blast
  show ?thesis
  proof (cases "j = k")
    case True
    with s' f k show ?thesis by simp
  next
    case False
    with s' have "operations s' ! k = operations s ! k" by simp
    with u f show ?thesis by simp
  qed
next
  case (SaveDone j)
  with st step_SaveDone [of rt options j s s'] obtain nxt
    where s': "s' = settle j (Inr nxt) s" by blast
  show ?thesis
  proof (cases "j = k")
    case True
    with s' f k show ?thesis by (simp add: settle_fields)
  next
    case False
    with s' have "operations s' ! k = operations s ! k" by (simp add: settle_fields)
    with u f show ?thesis by simp
  qed
qed

lemma step_join:
  assumes "i < length (calls s)" "calls s ! i = ReadGot force r"
      and "after_read options now force r = NeedRefresh current" "refreshPromise s = Some k"
  shows "step rt options (ReadDone i now) s = Some (s \<lparr> calls := (calls s)[i := Awaiting k] \<rparr>)"
  using assms by (simp add: step_def)

lemma step_start:
  assumes "i < length (calls s)" "calls s ! i = ReadGot force r"
      and "after_read options now force r = NeedRefresh current" "refreshPromise s = None"
  shows "step rt options (ReadDone i now) s
           = Some (s \<lparr> refreshPromise := Some (length (operations s)),
                        operations := operations s @ [Fetching current],
                        calls := (calls s)[i := Awaiting (length (operations s))] \<rparr>)"
  using assms by (simp add: step_def)

lemma filter_update_count:
  "i < length xs \<Longrightarrow>
     length (filter P (xs[i := y])) + (if P (xs ! i) then 1 else 0)
       = length (filter P xs) + (if P y then 1 else 0)"
proof (induction xs arbitrary: i)
  case Nil
  then show ?case by simp
next
  case (Cons x xs)
  show ?case
  proof (cases i)
    case 0
    then show ?thesis by simp
  next
    case (Suc j)
    with Cons.prems have "j < length xs" by simp
    from Cons.IH [OF this] Suc show ?thesis by simp
  qed
qed

lemma decided_simps [simp]:
  "\<not> decided (Reading force)" "\<not> decided (ReadGot force r)"
  "decided (Awaiting k)" "decided (Settled r)"
  by (simp_all add: decided_def)

lemma decided_update_same:
  assumes "i < length cs" "decided (cs ! i) = decided c"
  shows "length (filter decided (cs[i := c])) = length (filter decided cs)"
  using filter_update_count [OF assms(1), of decided c] assms(2) by simp

lemma decided_update_new:
  assumes "i < length cs" "\<not> decided (cs ! i)" "decided c"
  shows "length (filter decided (cs[i := c])) = Suc (length (filter decided cs))"
  using filter_update_count [OF assms(1), of decided c] assms(2,3) by simp

lemma decided_resume_waiters:
  "length (filter decided (resume_waiters k r cs)) = length (filter decided cs)"
  by (induction cs) (simp_all add: resume_waiters_def)

lemma settle_counts:
  "length (operations (settle k r s)) = length (operations s)"
  "length (filter decided (calls (settle k r s))) = length (filter decided (calls s))"
  "refreshPromise (settle k r s) = refreshPromise s \<or> refreshPromise (settle k r s) = None"
  by (simp_all add: settle_fields decided_resume_waiters)

lemma step_operation:
  assumes st: "step rt options t s = Some s'"
      and t: "t = FetchDone k env \<or> t = RenameIO k \<or> t = SaveDone k"
  shows "length (operations s') = length (operations s)
       \<and> length (filter decided (calls s')) = length (filter decided (calls s))
       \<and> (refreshPromise s' = refreshPromise s \<or> refreshPromise s' = None)"
proof -
  consider (fetch) "t = FetchDone k env" | (rename) "t = RenameIO k" | (save) "t = SaveDone k"
    using t by blast
  then show ?thesis
  proof cases
    case fetch
    with st step_FetchDone [of rt options k env s s'] obtain current
      where s': "s' = (case nextCredentials rt (clock env) current (token_reply env) of
                 Inl e \<Rightarrow> settle k (Inl e) s
               | Inr next \<Rightarrow> s \<lparr> operations := (operations s)[k := Saving next (tmp_uuid env)] \<rparr>)"
      by blast
    show ?thesis
    proof (cases "nextCredentials rt (clock env) current (token_reply env)")
      case (Inl e)
      with s' have "s' = settle k (Inl e) s" by simp
      with settle_counts [of k "Inl e" s] show ?thesis by simp
    next
      case (Inr nxt)
      with s' show ?thesis by simp
    qed
  next
    case rename
    with st step_RenameIO [of rt options k s s'] obtain nxt uuid
      where "s' = s \<lparr> loop_disk := saveCredentials rt options uuid nxt (loop_disk s),
                  operations := (operations s)[k := Renamed nxt] \<rparr>"
      by blast
    then show ?thesis by simp
  next
    case save
    with st step_SaveDone [of rt options k s s'] obtain nxt
      where "s' = settle k (Inr nxt) s"
      by blast
    with settle_counts [of k "Inr nxt" s] show ?thesis by simp
  qed
qed

lemma step_token_requests:
  assumes "step rt options t s = Some s'"
  shows "token_requests s' = token_requests s
       \<or> (token_requests s' = token_requests s + 1 \<and> refreshPromise s = None
          \<and> (\<exists>i now force r current.
                 t = ReadDone i now \<and> i < length (calls s) \<and> calls s ! i = ReadGot force r
               \<and> after_read options now force r = NeedRefresh current))"
proof (cases t)
  case (Invoke force)
  with assms show ?thesis by (auto simp: step_Invoke token_requests_def)
next
  case (ReadIO i)
  with assms step_ReadIO [of rt options i s s'] show ?thesis
    by (auto simp: token_requests_def)
next
  case (ReadDone i now)
  with assms step_ReadDone [of rt options i now s s'] obtain force r
    where i: "i < length (calls s)" and c: "calls s ! i = ReadGot force r"
      and s': "s' = (case after_read options now force r of
                 ReturnCurrent current \<Rightarrow> s \<lparr> calls := (calls s)[i := Settled (Inr current)] \<rparr>
               | Throw e \<Rightarrow> s \<lparr> calls := (calls s)[i := Settled (Inl e)] \<rparr>
               | NeedRefresh current \<Rightarrow>
                   (case refreshPromise s of
                      None \<Rightarrow> s \<lparr> refreshPromise := Some (length (operations s)),
                                  operations := operations s @ [Fetching current],
                                  calls := (calls s)[i := Awaiting (length (operations s))] \<rparr>
                    | Some k \<Rightarrow> s \<lparr> calls := (calls s)[i := Awaiting k] \<rparr>))"
    by blast
  show ?thesis
  proof (cases "after_read options now force r")
    case (ReturnCurrent current)
    with s' show ?thesis by (simp add: token_requests_def)
  next
    case (Throw e)
    with s' show ?thesis by (simp add: token_requests_def)
  next
    case (NeedRefresh current)
    show ?thesis
    proof (cases "refreshPromise s")
      case None
      with s' NeedRefresh have "token_requests s' = token_requests s + 1"
        by (simp add: token_requests_def)
      with None ReadDone i c NeedRefresh show ?thesis by blast
    next
      case (Some k)
      with s' NeedRefresh show ?thesis by (simp add: token_requests_def)
    qed
  qed
next
  case (FetchDone k env)
  with step_operation [OF assms, of k env]  show ?thesis
    by (simp add: token_requests_def)
next
  case (RenameIO k)
  with step_operation [OF assms, of k]  show ?thesis
    by (simp add: token_requests_def)
next
  case (SaveDone k)
  with step_operation [OF assms, of k]  show ?thesis
    by (simp add: token_requests_def)
qed

lemma step_decided:
  assumes st: "step rt options t s = Some s'"
      and inv: "length (operations s) \<le> length (filter decided (calls s))"
  shows "length (operations s') \<le> length (filter decided (calls s'))"
proof (cases t)
  case (Invoke force)
  with st inv show ?thesis by (auto simp: step_Invoke)
next
  case (ReadIO i)
  with st step_ReadIO [of rt options i s s'] obtain force where i: "i < length (calls s)"
      and c: "calls s ! i = Reading force"
      and s': "s' = s \<lparr> calls := (calls s)
                    [i := ReadGot force (readCredentials rt options (entries (loop_disk s)))] \<rparr>"
    by blast
  from decided_update_same [OF i, of "ReadGot force (readCredentials rt options (entries (loop_disk s)))"]
       c s' inv
  show ?thesis by simp
next
  case (ReadDone i now)
  with st step_ReadDone [of rt options i now s s'] obtain force r
    where i: "i < length (calls s)" and c: "calls s ! i = ReadGot force r"
      and s': "s' = (case after_read options now force r of
                 ReturnCurrent current \<Rightarrow> s \<lparr> calls := (calls s)[i := Settled (Inr current)] \<rparr>
               | Throw e \<Rightarrow> s \<lparr> calls := (calls s)[i := Settled (Inl e)] \<rparr>
               | NeedRefresh current \<Rightarrow>
                   (case refreshPromise s of
                      None \<Rightarrow> s \<lparr> refreshPromise := Some (length (operations s)),
                                  operations := operations s @ [Fetching current],
                                  calls := (calls s)[i := Awaiting (length (operations s))] \<rparr>
                    | Some k \<Rightarrow> s \<lparr> calls := (calls s)[i := Awaiting k] \<rparr>))"
    by blast
  from c have u: "\<not> decided (calls s ! i)" by simp
  have more: "length (filter decided ((calls s)[i := c'])) = Suc (length (filter decided (calls s)))"
    if "decided c'" for c'
    using decided_update_new [OF i u that] .
  show ?thesis
  proof (cases "after_read options now force r")
    case (ReturnCurrent current)
    with s' inv more [of "Settled (Inr current)"] show ?thesis by simp
  next
    case (Throw e)
    with s' inv more [of "Settled (Inl e)"] show ?thesis by simp
  next
    case (NeedRefresh current)
    show ?thesis
    proof (cases "refreshPromise s")
      case None
      with s' NeedRefresh inv more [of "Awaiting (length (operations s))"] show ?thesis by simp
    next
      case (Some k)
      with s' NeedRefresh inv more [of "Awaiting k"] show ?thesis by simp
    qed
  qed
next
  case (FetchDone k env)
  with step_operation [OF st, of k env] inv show ?thesis
    by simp
next
  case (RenameIO k)
  with step_operation [OF st, of k] inv show ?thesis
    by simp
next
  case (SaveDone k)
  with step_operation [OF st, of k] inv show ?thesis
    by simp
qed

lemma step_latest:
  assumes st: "step rt options t s = Some s'"
      and inv: "\<And>k. refreshPromise s = Some k \<Longrightarrow> Suc k = length (operations s)"
      and slot: "refreshPromise s' = Some j"
  shows "Suc j = length (operations s')"
proof (cases t)
  case (Invoke force)
  with st inv slot show ?thesis by (auto simp: step_Invoke)
next
  case (ReadIO i)
  with st step_ReadIO [of rt options i s s'] inv slot show ?thesis
    by auto
next
  case (ReadDone i now)
  with st step_ReadDone [of rt options i now s s'] obtain force r
    where s': "s' = (case after_read options now force r of
                 ReturnCurrent current \<Rightarrow> s \<lparr> calls := (calls s)[i := Settled (Inr current)] \<rparr>
               | Throw e \<Rightarrow> s \<lparr> calls := (calls s)[i := Settled (Inl e)] \<rparr>
               | NeedRefresh current \<Rightarrow>
                   (case refreshPromise s of
                      None \<Rightarrow> s \<lparr> refreshPromise := Some (length (operations s)),
                                  operations := operations s @ [Fetching current],
                                  calls := (calls s)[i := Awaiting (length (operations s))] \<rparr>
                    | Some k \<Rightarrow> s \<lparr> calls := (calls s)[i := Awaiting k] \<rparr>))"
    by blast
  show ?thesis
  proof (cases "after_read options now force r")
    case (ReturnCurrent current)
    with s' slot inv [of j] show ?thesis by simp
  next
    case (Throw e)
    with s' slot inv [of j] show ?thesis by simp
  next
    case (NeedRefresh current)
    show ?thesis
    proof (cases "refreshPromise s")
      case None
      with s' NeedRefresh slot show ?thesis by auto
    next
      case (Some k)
      with s' NeedRefresh slot inv [of j] show ?thesis by simp
    qed
  qed
next
  case (FetchDone k env)
  with step_operation [OF st, of k env] inv slot show ?thesis
    by auto
next
  case (RenameIO k)
  with step_operation [OF st, of k] inv slot show ?thesis
    by auto
next
  case (SaveDone k)
  with step_operation [OF st, of k] inv slot show ?thesis
    by auto
qed

lemma run_decided:
  "run rt options ts s = Some s' \<Longrightarrow> length (operations s) \<le> length (filter decided (calls s))
     \<Longrightarrow> length (operations s') \<le> length (filter decided (calls s'))"
proof (induction ts arbitrary: s)
  case Nil
  then show ?case by simp
next
  case (Cons t ts)
  from Cons.prems(1) obtain s1 where s1: "step rt options t s = Some s1"
      and rest: "run rt options ts s1 = Some s'"
    by (cases "step rt options t s") simp_all
  from Cons.IH [OF rest step_decided [OF s1 Cons.prems(2)]] show ?case .
qed

lemma run_latest:
  "run rt options ts s = Some s' \<Longrightarrow> (\<And>k. refreshPromise s = Some k \<Longrightarrow> Suc k = length (operations s))
     \<Longrightarrow> refreshPromise s' = Some j \<Longrightarrow> Suc j = length (operations s')"
proof (induction ts arbitrary: s)
  case Nil
  then show ?case by simp
next
  case (Cons t ts)
  from Cons.prems(1) obtain s1 where s1: "step rt options t s = Some s1"
      and rest: "run rt options ts s1 = Some s'"
    by (cases "step rt options t s") simp_all
  have "\<And>k. refreshPromise s1 = Some k \<Longrightarrow> Suc k = length (operations s1)"
    using step_latest [OF s1 Cons.prems(2)] by blast
  from Cons.IH [OF rest this Cons.prems(3)] show ?case .
qed

lemma step_calls_length:
  assumes "step rt options t s = Some s'"
  shows "length (calls s')
           = length (calls s) + length (filter (\<lambda>t. \<exists>force. t = Invoke force) [t])"
proof (cases t)
  case (Invoke force)
  with assms show ?thesis by (auto simp: step_Invoke)
next
  case (ReadIO i)
  with assms step_ReadIO [of rt options i s s'] show ?thesis by auto
next
  case (ReadDone i now)
  with assms step_ReadDone [of rt options i now s s'] obtain force r
    where s': "s' = (case after_read options now force r of
                 ReturnCurrent current \<Rightarrow> s \<lparr> calls := (calls s)[i := Settled (Inr current)] \<rparr>
               | Throw e \<Rightarrow> s \<lparr> calls := (calls s)[i := Settled (Inl e)] \<rparr>
               | NeedRefresh current \<Rightarrow>
                   (case refreshPromise s of
                      None \<Rightarrow> s \<lparr> refreshPromise := Some (length (operations s)),
                                  operations := operations s @ [Fetching current],
                                  calls := (calls s)[i := Awaiting (length (operations s))] \<rparr>
                    | Some k \<Rightarrow> s \<lparr> calls := (calls s)[i := Awaiting k] \<rparr>))"
    by blast
  then show ?thesis using ReadDone by (simp split: decision.splits option.splits)
next
  case (FetchDone k env)
  with assms step_FetchDone [of rt options k env s s'] obtain current
    where "s' = (case nextCredentials rt (clock env) current (token_reply env) of
                 Inl e \<Rightarrow> settle k (Inl e) s
               | Inr next \<Rightarrow> s \<lparr> operations := (operations s)[k := Saving next (tmp_uuid env)] \<rparr>)"
    by blast
  then show ?thesis using FetchDone
    by (simp add: settle_fields resume_waiters_def split: sum.splits)
next
  case (RenameIO k)
  with assms step_RenameIO [of rt options k s s'] show ?thesis by auto
next
  case (SaveDone k)
  with assms step_SaveDone [of rt options k s s'] show ?thesis
    by (auto simp: settle_fields resume_waiters_def)
qed

lemma run_calls_length:
  "run rt options ts s = Some s' \<Longrightarrow>
     length (calls s')
       = length (calls s) + length (filter (\<lambda>t. \<exists>force. t = Invoke force) ts)"
proof (induction ts arbitrary: s)
  case Nil
  then show ?case by simp
next
  case (Cons t ts)
  from Cons.prems(1) obtain s1 where s1: "step rt options t s = Some s1"
      and rest: "run rt options ts s1 = Some s'"
    by (cases "step rt options t s") simp_all
  from Cons.IH [OF rest] step_calls_length [OF s1] show ?case by simp
qed

text \<open>
  Claim C1, amended. In every state the event loop reaches from a store at rest: an
  operation that has not settled is the one in the slot, so at most one is in flight. A
  call that needs a refresh while the slot holds operation \<open>k\<close> awaits \<open>k\<close> and starts
  nothing. When a turn settles an operation, the slot is empty afterwards and every call
  that awaited the operation has settled with its result, the same for all of them. A call
  that needs a refresh while the slot is empty starts a new operation, which sends one more
  token request, and puts it in the slot. No other turn sends a token request: a turn
  leaves the number of token requests as it is unless it is the resumption of a call that
  needs a refresh while the slot is empty, which adds one. The operation in the slot is
  the last one started: while operation \<open>k\<close> is pending, \<open>k + 1\<close> token requests have been
  sent in all, so exactly one while the first operation is pending, however many calls
  have joined it. A call that awaits operation \<open>k\<close> has at least \<open>k + 1\<close> token requests
  before it. The token requests are at most as many as the calls that have passed the test
  of the slot or settled, and the calls are as many as the invocations: \<open>N\<close> calls send at
  most \<open>N\<close> token requests.
\<close>

theorem single_flight_refresh:
  assumes "run rt options ts (idle d) = Some s"
  shows "(\<forall>k. k < length (operations s) \<and> unsettled (operations s ! k)
              \<longrightarrow> refreshPromise s = Some k)
       \<and> (\<forall>j k. j < length (operations s) \<and> unsettled (operations s ! j)
              \<and> k < length (operations s) \<and> unsettled (operations s ! k) \<longrightarrow> j = k)
       \<and> (\<forall>i force r now current k.
              i < length (calls s) \<and> calls s ! i = ReadGot force r
              \<and> after_read options now force r = NeedRefresh current \<and> refreshPromise s = Some k
              \<longrightarrow> step rt options (ReadDone i now) s
                    = Some (s \<lparr> calls := (calls s)[i := Awaiting k] \<rparr>))
       \<and> (\<forall>t s' k r.
              step rt options t s = Some s' \<and> k < length (operations s)
              \<and> unsettled (operations s ! k) \<and> operations s' ! k = Finished r
              \<longrightarrow> refreshPromise s' = None
                  \<and> (\<forall>i. i < length (calls s) \<and> calls s ! i = Awaiting k
                         \<longrightarrow> calls s' ! i = Settled r))
       \<and> (\<forall>i force r now current.
              i < length (calls s) \<and> calls s ! i = ReadGot force r
              \<and> after_read options now force r = NeedRefresh current \<and> refreshPromise s = None
              \<longrightarrow> (\<exists>s'. step rt options (ReadDone i now) s = Some s'
                    \<and> token_requests s' = token_requests s + 1
                    \<and> refreshPromise s' = Some (token_requests s)
                    \<and> calls s' ! i = Awaiting (token_requests s)))
       \<and> (\<forall>t s'.
              step rt options t s = Some s'
              \<longrightarrow> token_requests s' = token_requests s
                  \<or> (token_requests s' = token_requests s + 1 \<and> refreshPromise s = None
                     \<and> (\<exists>i now force r current.
                            t = ReadDone i now \<and> i < length (calls s)
                          \<and> calls s ! i = ReadGot force r
                          \<and> after_read options now force r = NeedRefresh current)))
       \<and> (\<forall>k. refreshPromise s = Some k \<longrightarrow> token_requests s = k + 1)
       \<and> (\<forall>k. Awaiting k \<in> set (calls s) \<longrightarrow> k < token_requests s)
       \<and> token_requests s \<le> length (filter decided (calls s))
       \<and> length (calls s) = length (filter (\<lambda>t. \<exists>force. t = Invoke force) ts)"
proof -
  have inv: "single_flight s"
    using single_flight_run [OF single_flight_idle assms] .
  have one: "refreshPromise s = Some k"
    if "k < length (operations s)" "unsettled (operations s ! k)" for k
    using single_flight_unsettled [OF inv that] .
  have two: "j = k"
    if "j < length (operations s)" "unsettled (operations s ! j)"
       "k < length (operations s)" "unsettled (operations s ! k)" for j k
    using one [OF that(1,2)] one [OF that(3,4)] by simp
  have four: "refreshPromise s' = None
                  \<and> (\<forall>i. i < length (calls s) \<and> calls s ! i = Awaiting k
                         \<longrightarrow> calls s' ! i = Settled r)"
    if "step rt options t s = Some s'" "k < length (operations s)"
       "unsettled (operations s ! k)" "operations s' ! k = Finished r" for t s' k r
  proof -
    from step_finishes [OF that] have s': "s' = settle k r s" .
    with settle_clears [OF inv that(2,3), of r] resume_waiters_nth [of _ "calls s" k r]
    show ?thesis by (simp add: settle_fields)
  qed
  have five: "\<exists>s'. step rt options (ReadDone i now) s = Some s'
                    \<and> token_requests s' = token_requests s + 1
                    \<and> refreshPromise s' = Some (token_requests s)
                    \<and> calls s' ! i = Awaiting (token_requests s)"
    if "i < length (calls s)" "calls s ! i = ReadGot force r"
       "after_read options now force r = NeedRefresh current" "refreshPromise s = None"
    for i force r now current
    using step_start [OF that, of rt] that(1) by (simp add: token_requests_def)
  show ?thesis
  proof (intro conjI)
    show "\<forall>k. k < length (operations s) \<and> unsettled (operations s ! k)
              \<longrightarrow> refreshPromise s = Some k"
      using one by blast
    show "\<forall>j k. j < length (operations s) \<and> unsettled (operations s ! j)
              \<and> k < length (operations s) \<and> unsettled (operations s ! k) \<longrightarrow> j = k"
      using two by blast
    show "\<forall>i force r now current k.
              i < length (calls s) \<and> calls s ! i = ReadGot force r
              \<and> after_read options now force r = NeedRefresh current \<and> refreshPromise s = Some k
              \<longrightarrow> step rt options (ReadDone i now) s
                    = Some (s \<lparr> calls := (calls s)[i := Awaiting k] \<rparr>)"
      using step_join by blast
    show "\<forall>t s' k r.
              step rt options t s = Some s' \<and> k < length (operations s)
              \<and> unsettled (operations s ! k) \<and> operations s' ! k = Finished r
              \<longrightarrow> refreshPromise s' = None
                  \<and> (\<forall>i. i < length (calls s) \<and> calls s ! i = Awaiting k
                         \<longrightarrow> calls s' ! i = Settled r)"
      using four by blast
    show "\<forall>i force r now current.
              i < length (calls s) \<and> calls s ! i = ReadGot force r
              \<and> after_read options now force r = NeedRefresh current \<and> refreshPromise s = None
              \<longrightarrow> (\<exists>s'. step rt options (ReadDone i now) s = Some s'
                    \<and> token_requests s' = token_requests s + 1
                    \<and> refreshPromise s' = Some (token_requests s)
                    \<and> calls s' ! i = Awaiting (token_requests s))"
      using five by blast
    show "\<forall>t s'.
              step rt options t s = Some s'
              \<longrightarrow> token_requests s' = token_requests s
                  \<or> (token_requests s' = token_requests s + 1 \<and> refreshPromise s = None
                     \<and> (\<exists>i now force r current.
                            t = ReadDone i now \<and> i < length (calls s)
                          \<and> calls s ! i = ReadGot force r
                          \<and> after_read options now force r = NeedRefresh current))"
    proof (intro allI impI)
      fix t s'
      assume "step rt options t s = Some s'"
      from step_token_requests [OF this]
      show "token_requests s' = token_requests s
                  \<or> (token_requests s' = token_requests s + 1 \<and> refreshPromise s = None
                     \<and> (\<exists>i now force r current.
                            t = ReadDone i now \<and> i < length (calls s)
                          \<and> calls s ! i = ReadGot force r
                          \<and> after_read options now force r = NeedRefresh current))" .
    qed
    show "\<forall>k. refreshPromise s = Some k \<longrightarrow> token_requests s = k + 1"
    proof (intro allI impI)
      fix k
      assume "refreshPromise s = Some k"
      from run_latest [OF assms _ this] show "token_requests s = k + 1"
        by (simp add: idle_def token_requests_def)
    qed
    show "\<forall>k. Awaiting k \<in> set (calls s) \<longrightarrow> k < token_requests s"
    proof (intro allI impI)
      fix k
      assume "Awaiting k \<in> set (calls s)"
      from single_flight_slot [OF inv single_flight_awaiting [OF inv this]]
      show "k < token_requests s" by (simp add: token_requests_def)
    qed
    show "token_requests s \<le> length (filter decided (calls s))"
      using run_decided [OF assms] by (simp add: idle_def token_requests_def)
    show "length (calls s) = length (filter (\<lambda>t. \<exists>force. t = Invoke force) ts)"
      using run_calls_length [OF assms] by (simp add: idle_def)
  qed
qed

theorem single_flight_refresh_witness:
  \<open>run example_runtime \<lparr> credentialsFile = ''/c.json'', tokenRefreshBufferMs = 30000 \<rparr>
       [Invoke False, Invoke False, ReadIO 0, ReadIO 1, ReadDone 0 200000]
       (idle \<lparr> entries = [''/c.json'' \<mapsto> Content
            ''{"access_token":"t","refresh_token":"r","expiry_date":100000}''], journal = [] \<rparr>)
     = Some \<lparr> loop_disk = \<lparr> entries = [''/c.json'' \<mapsto> Content
                 ''{"access_token":"t","refresh_token":"r","expiry_date":100000}''], journal = [] \<rparr>,
              refreshPromise = Some 0,
              operations = [Fetching \<lparr> access_token = Some ''t'', refresh_token = Some ''r'',
                 token_type = None, expiry_date = Some 100000, resource_url = None \<rparr>],
              calls = [Awaiting 0,
                 ReadGot False (Inr \<lparr> access_token = Some ''t'', refresh_token = Some ''r'',
                 token_type = None, expiry_date = Some 100000, resource_url = None \<rparr>)] \<rparr>
   \<and> step example_runtime \<lparr> credentialsFile = ''/c.json'', tokenRefreshBufferMs = 30000 \<rparr>
       (ReadDone 1 200000)
       \<lparr> loop_disk = \<lparr> entries = [''/c.json'' \<mapsto> Content
                 ''{"access_token":"t","refresh_token":"r","expiry_date":100000}''], journal = [] \<rparr>,
              refreshPromise = Some 0,
              operations = [Fetching \<lparr> access_token = Some ''t'', refresh_token = Some ''r'',
                 token_type = None, expiry_date = Some 100000, resource_url = None \<rparr>],
              calls = [Awaiting 0,
                 ReadGot False (Inr \<lparr> access_token = Some ''t'', refresh_token = Some ''r'',
                 token_type = None, expiry_date = Some 100000, resource_url = None \<rparr>)] \<rparr>
     = Some \<lparr> loop_disk = \<lparr> entries = [''/c.json'' \<mapsto> Content
                 ''{"access_token":"t","refresh_token":"r","expiry_date":100000}''], journal = [] \<rparr>,
              refreshPromise = Some 0,
              operations = [Fetching \<lparr> access_token = Some ''t'', refresh_token = Some ''r'',
                 token_type = None, expiry_date = Some 100000, resource_url = None \<rparr>],
              calls = [Awaiting 0, Awaiting 0] \<rparr>
   \<and> map_option (\<lambda>s. (token_requests s, refreshPromise s, calls s))
       (run example_runtime \<lparr> credentialsFile = ''/c.json'', tokenRefreshBufferMs = 30000 \<rparr>
         [Invoke False, Invoke False, ReadIO 0, ReadIO 1, ReadDone 0 200000, ReadDone 1 200000,
          FetchDone 0 \<lparr> token_reply = TokenResponse 200 ''{"access_token":"a"}'', clock = 200000,
                       tmp_uuid = ''u1'' \<rparr>,
          RenameIO 0, SaveDone 0]
         (idle \<lparr> entries = [''/c.json'' \<mapsto> Content
            ''{"access_token":"t","refresh_token":"r","expiry_date":100000}''], journal = [] \<rparr>))
     = Some (1, None,
         [Settled (Inr \<lparr> access_token = Some ''a'', refresh_token = Some ''r'', token_type = None,
                       expiry_date = Some 3800000, resource_url = None \<rparr>),
          Settled (Inr \<lparr> access_token = Some ''a'', refresh_token = Some ''r'', token_type = None,
                       expiry_date = Some 3800000, resource_url = None \<rparr>)])\<close>
  (is "?reached \<and> ?joined \<and> ?shared")
proof -
  have reached: ?reached by (simp add: eval_loop)
  have shared: ?shared by (simp add: eval_loop)
  have need: "after_read \<lparr> credentialsFile = ''/c.json'', tokenRefreshBufferMs = 30000 \<rparr> 200000 False
        (Inr \<lparr> access_token = Some ''t'', refresh_token = Some ''r'',
                 token_type = None, expiry_date = Some 100000, resource_url = None \<rparr>)
      = NeedRefresh \<lparr> access_token = Some ''t'', refresh_token = Some ''r'',
                 token_type = None, expiry_date = Some 100000, resource_url = None \<rparr>"
    by (simp add: after_read_def isTokenValid_def)
  from single_flight_refresh [OF reached, THEN conjunct2, THEN conjunct2, THEN conjunct1,
         rule_format, of 1 False _ 200000 _ 0] need
  have joined: ?joined by simp
  from reached joined shared show ?thesis by (intro conjI)
qed

end
